theory Spec2Isabelle
  imports Main "HOL-Library.Sublist"
begin

section \<open>Python values held by the workflow state\<close>

text \<open>
  The two enumerations of \<^verbatim>\<open>src/models/workflow_state.py\<close>. Both are
  \<^verbatim>\<open>(str, Enum)\<close> classes, so a member is also the string that is its value.
\<close>

datatype WorkflowStatus = PENDING | IN_PROGRESS | COMPLETED | FAILED | PAUSED

datatype QAStatus = QA_PASS | QA_FAIL | QA_PENDING

fun WorkflowStatus_value :: "WorkflowStatus \<Rightarrow> string" where
  "WorkflowStatus_value PENDING = ''pending''"
| "WorkflowStatus_value IN_PROGRESS = ''in_progress''"
| "WorkflowStatus_value COMPLETED = ''completed''"
| "WorkflowStatus_value FAILED = ''failed''"
| "WorkflowStatus_value PAUSED = ''paused''"

fun QAStatus_value :: "QAStatus \<Rightarrow> string" where
  "QAStatus_value QA_PASS = ''pass''"
| "QAStatus_value QA_FAIL = ''fail''"
| "QAStatus_value QA_PENDING = ''pending''"

fun QAStatus_name :: "QAStatus \<Rightarrow> string" where
  "QAStatus_name QA_PASS = ''PASS''"
| "QAStatus_name QA_FAIL = ''FAIL''"
| "QAStatus_name QA_PENDING = ''PENDING''"

text \<open>
  The values a worker may put into a result mapping. The supervisor only ever applies
  \<^verbatim>\<open>str()\<close>, truth testing and \<^verbatim>\<open>==\<close> against a string to them, so any
  object other than None, a bool, a str or a QAStatus member is kept as \<open>POther\<close> with
  its \<^verbatim>\<open>str()\<close> rendering and its truth value.
\<close>

datatype pyval =
    PNone
  | PBool bool
  | PStr string
  | PQAStatus QAStatus
  | POther string bool

text \<open>\<^verbatim>\<open>str(v)\<close>; an Enum member prints as \<^verbatim>\<open>QAStatus.FAIL\<close>.\<close>

fun py_str :: "pyval \<Rightarrow> string" where
  "py_str PNone = ''None''"
| "py_str (PBool b) = (if b then ''True'' else ''False'')"
| "py_str (PStr s) = s"
| "py_str (PQAStatus q) = ''QAStatus.'' @ QAStatus_name q"
| "py_str (POther r t) = r"

text \<open>\<^verbatim>\<open>bool(v)\<close>, as used by \<^verbatim>\<open>and\<close>, \<^verbatim>\<open>or\<close>, \<^verbatim>\<open>if\<close>.\<close>

fun py_truthy :: "pyval \<Rightarrow> bool" where
  "py_truthy PNone = False"
| "py_truthy (PBool b) = b"
| "py_truthy (PStr s) = (s \<noteq> [])"
| "py_truthy (PQAStatus q) = True"
| "py_truthy (POther r t) = t"

text \<open>
  \<^verbatim>\<open>v == "literal"\<close> and \<^verbatim>\<open>v == QAStatus.FAIL\<close>: string equality, which a str
  and a member of a str-valued Enum both take part in through their string value.
\<close>

fun py_eq_str :: "pyval \<Rightarrow> string \<Rightarrow> bool" where
  "py_eq_str (PStr s) lit = (s = lit)"
| "py_eq_str (PQAStatus q) lit = (QAStatus_value q = lit)"
| "py_eq_str v lit = False"

text \<open>
  \<^verbatim>\<open>str.lower()\<close> on the ASCII letters. (No character outside ASCII lower-cases to
  one of the letters of the literals compared against below.)
\<close>

definition lower_char :: "char \<Rightarrow> char" where
  "lower_char c =
     (let n = (of_char c :: nat) in if 65 \<le> n \<and> n \<le> 90 then char_of (n + 32) else c)"

definition py_lower :: "string \<Rightarrow> string" where
  "py_lower s = map lower_char s"

text \<open>\<^verbatim>\<open>str(n)\<close> for an int.\<close>

fun str_nat :: "nat \<Rightarrow> string" where
  "str_nat n =
     (if n < 10 then [''0123456789'' ! n]
      else str_nat (n div 10) @ [''0123456789'' ! (n mod 10)])"

definition str_int :: "int \<Rightarrow> string" where
  "str_int i = (if i < 0 then ''-'' @ str_nat (nat (- i)) else str_nat (nat i))"

text \<open>A dict with string keys, in insertion order; \<^verbatim>\<open>d.get(k, default)\<close>.\<close>

type_synonym pydict = "(string \<times> pyval) list"

definition dict_get :: "pydict \<Rightarrow> string \<Rightarrow> pyval \<Rightarrow> pyval" where
  "dict_get d k dflt = (case map_of d k of None \<Rightarrow> dflt | Some v \<Rightarrow> v)"

definition dict_set :: "pydict \<Rightarrow> string \<Rightarrow> pyval \<Rightarrow> pydict" where
  "dict_set d k v =
     (if k \<in> fst ` set d then map (\<lambda>(k', v'). if k' = k then (k', v) else (k', v')) d
      else d @ [(k, v)])"

section \<open>The State Record\<close>

text \<open>One entry of \<^verbatim>\<open>state.events\<close> (the timestamp is not modelled).\<close>

record event =
  ev_step :: string
  ev_status :: string
  ev_level :: string
  ev_message :: string

text \<open>
  \<^verbatim>\<open>WorkflowState\<close> of \<^verbatim>\<open>src/models/workflow_state.py\<close>. Python ints are
  \<open>int\<close>; optional fields are \<open>option\<close>; fields that the supervisor fills from a
  worker's result without validation hold a \<open>pyval\<close>. Times are clock readings
  (\<open>nat\<close>). \<^verbatim>\<open>request_id\<close>, \<^verbatim>\<open>timestamp\<close>, \<^verbatim>\<open>quality_threshold\<close> and
  \<^verbatim>\<open>agent_timings\<close> (identity and floating-point seconds) are left out.

  \<open>run_status_assignments\<close> is a history variable, not a field of the source: it
  records the value of every executed assignment \<^verbatim>\<open>state.run_status = ...\<close> in
  order, so that statements about how often the label is assigned can be written.
\<close>

record WorkflowState =
  source_language :: string
  target_language :: string
  document_type :: string
  page_count :: int
  raw_text :: string
  status :: WorkflowStatus
  run_status :: string
  current_agent :: "string option"
  execution_plan :: pyval
  route_history :: "string list"
  step_status :: "string \<rightharpoonup> string"
  events :: "event list"
  normalized_request :: pydict
  translation_output :: pyval
  translation_method :: pyval
  qa_result :: pydict
  judge_result :: pydict
  final_output :: pydict
  retry_count :: int
  max_retries :: int
  start_time :: "nat option"
  end_time :: "nat option"
  parallel_execution :: bool
  requested_real_llm :: bool
  requires_approval :: pyval
  approval_granted :: "bool option"
  pause_reason :: pyval
  force_qa_fail_once :: bool
  errors :: "string list"
  warnings :: "string list"
  run_status_assignments :: "string list"

text \<open>
  \<^verbatim>\<open>add_error\<close> / \<^verbatim>\<open>add_warning\<close>: append unless the message is already there.
\<close>

definition add_msg :: "string list \<Rightarrow> string \<Rightarrow> string list" where
  "add_msg xs m = (if m \<in> set xs then xs else xs @ [m])"

definition add_error :: "string \<Rightarrow> WorkflowState \<Rightarrow> WorkflowState" where
  "add_error m s = s\<lparr>errors := add_msg (errors s) m\<rparr>"

definition add_warning :: "string \<Rightarrow> WorkflowState \<Rightarrow> WorkflowState" where
  "add_warning m s = s\<lparr>warnings := add_msg (warnings s) m\<rparr>"

definition set_step_status :: "string \<Rightarrow> string \<Rightarrow> WorkflowState \<Rightarrow> WorkflowState" where
  "set_step_status step st s = s\<lparr>step_status := (step_status s)(step \<mapsto> st)\<rparr>"

definition add_event :: "event \<Rightarrow> WorkflowState \<Rightarrow> WorkflowState" where
  "add_event e s = s\<lparr>events := events s @ [e]\<rparr>"

text \<open>An executed assignment \<^verbatim>\<open>state.run_status = v\<close>.\<close>

definition assign_run_status :: "string \<Rightarrow> WorkflowState \<Rightarrow> WorkflowState" where
  "assign_run_status v s =
     s\<lparr>run_status := v, run_status_assignments := run_status_assignments s @ [v]\<rparr>"

section \<open>The Router\<close>

text \<open>\<^verbatim>\<open>determine_next_step\<close> of \<^verbatim>\<open>src/workflow/routing.py\<close>.\<close>

definition determine_next_step :: "string \<Rightarrow> WorkflowState \<Rightarrow> string" where
  "determine_next_step current_step state =
     (if current_step = ''intake'' then ''planner''
      else if current_step = ''planner'' then
        (if py_truthy (requires_approval state) \<and> approval_granted state = None
         then ''pause_for_approval''
         else ''execution'')
      else if current_step = ''execution'' then ''qa''
      else if current_step = ''qa'' then
        (let qa_status = dict_get (qa_result state) ''status'' PNone in
         if py_eq_str qa_status (QAStatus_value QA_FAIL) \<and> retry_count state < max_retries state
         then ''execution''
         else ''judge'')
      else if current_step = ''judge'' then
        (let action = py_lower (py_str (dict_get (judge_result state) ''action'' (PStr ''accept''))) in
         if action = ''retry'' \<and> retry_count state < max_retries state
         then ''execution''
         else ''delivery'')
      else if current_step = ''delivery'' then ''end''
      else ''end'')"

section \<open>Run-status derivation\<close>

text \<open>\<^verbatim>\<open>MasterAgent._qa_failed\<close> and \<^verbatim>\<open>MasterAgent._derive_run_status\<close>.\<close>

definition qa_failed :: "WorkflowState \<Rightarrow> bool" where
  "qa_failed state =
     (let qa_status = dict_get (qa_result state) ''status'' PNone in
      case qa_status of
        PQAStatus q \<Rightarrow> q = QA_FAIL
      | _ \<Rightarrow> py_lower (py_str qa_status) = QAStatus_value QA_FAIL)"

definition derive_run_status :: "WorkflowState \<Rightarrow> string" where
  "derive_run_status state =
     (if status state = FAILED then WorkflowStatus_value FAILED
      else if status state = PAUSED then WorkflowStatus_value PAUSED
      else
        (let qa_failed = qa_failed state;
             judge_action = py_lower (py_str (dict_get (judge_result state) ''action'' (PStr ''accept'')))
         in if errors state \<noteq> [] \<or> warnings state \<noteq> [] \<or> qa_failed
               \<or> judge_action \<noteq> ''accept'' \<or> retry_count state > 0
            then ''completed_with_warnings''
            else WorkflowStatus_value COMPLETED))"

section \<open>Workers, clock and the supervisor object\<close>

text \<open>
  The worker contract \<^verbatim>\<open>execute(state) -> dict\<close>: a call either returns a result
  mapping or raises (\<open>Raises\<close> carries \<^verbatim>\<open>str(exc)\<close>). The translation worker also
  records warnings on the state it is handed (\<^verbatim>\<open>state.add_warning\<close>), so a call
  yields the warnings it recorded, in order, together with its outcome. A worker is an
  arbitrary function of the state it sees: no assumption is made on what it returns.
\<close>

datatype wresult = Returns pydict | Raises string

type_synonym worker = "WorkflowState \<Rightarrow> string list \<times> wresult"

text \<open>
  \<^verbatim>\<open>MasterAgent\<close>: the step registry, the answer of
  \<^verbatim>\<open>sla_monitor.is_breached(state.start_time)\<close> and the clock
  \<^verbatim>\<open>datetime.utcnow()\<close>; the last two depend on real time and are given as
  functions of the state at the moment of the call. The state manager and the progress
  callback only observe the state and are not modelled.
\<close>

record MasterAgent =
  worker_agents :: "string \<rightharpoonup> worker"
  is_breached :: "WorkflowState \<Rightarrow> bool"
  utcnow :: "WorkflowState \<Rightarrow> nat"

text \<open>
  The request mapping \<^verbatim>\<open>initial_request\<close>: the keys built by
  \<^verbatim>\<open>main.py\<close> and the Streamlit app, plus the two keys that
  \<^verbatim>\<open>WorkflowOrchestrator.execute_workflow\<close> adds.
\<close>

record request =
  rq_source_language :: string
  rq_target_language :: string
  rq_document_type :: string
  rq_page_count :: int
  rq_raw_text :: string
  rq_max_retries :: int
  rq_parallel_execution :: bool
  rq_force_qa_fail_once :: bool
  rq_requested_real_llm :: bool
  rq_warnings :: "string list"

text \<open>\<^verbatim>\<open>WorkflowState(**initial_request)\<close>: every other field takes its default.\<close>

definition initial_state :: "request \<Rightarrow> WorkflowState" where
  "initial_state rq =
     \<lparr> source_language = rq_source_language rq,
       target_language = rq_target_language rq,
       document_type = rq_document_type rq,
       page_count = rq_page_count rq,
       raw_text = rq_raw_text rq,
       status = PENDING,
       run_status = ''pending'',
       current_agent = None,
       execution_plan = POther ''[]'' False,
       route_history = [],
       step_status = Map.empty,
       events = [],
       normalized_request = [],
       translation_output = PNone,
       translation_method = PNone,
       qa_result = [],
       judge_result = [],
       final_output = [],
       retry_count = 0,
       max_retries = rq_max_retries rq,
       start_time = None,
       end_time = None,
       parallel_execution = rq_parallel_execution rq,
       requested_real_llm = rq_requested_real_llm rq,
       requires_approval = PBool False,
       approval_granted = None,
       pause_reason = PNone,
       force_qa_fail_once = rq_force_qa_fail_once rq,
       errors = [],
       warnings = rq_warnings rq,
       run_status_assignments = [] \<rparr>"

section \<open>The supervisor\<close>

text \<open>\<^verbatim>\<open>MasterAgent._emit_event\<close>: append the event to \<^verbatim>\<open>state.events\<close>.\<close>

definition emit_event ::
  "WorkflowState \<Rightarrow> string \<Rightarrow> string \<Rightarrow> string \<Rightarrow> string \<Rightarrow> WorkflowState" where
  "emit_event state step st message level =
     add_event \<lparr>ev_step = step, ev_status = st, ev_level = level, ev_message = message\<rparr> state"

text \<open>The warnings a worker recorded during its call, applied in order.\<close>

definition add_warnings :: "string list \<Rightarrow> WorkflowState \<Rightarrow> WorkflowState" where
  "add_warnings ws s = s\<lparr>warnings := foldl add_msg (warnings s) ws\<rparr>"

text \<open>\<^verbatim>\<open>MasterAgent._merge_result\<close>.\<close>

definition merge_result :: "WorkflowState \<Rightarrow> string \<Rightarrow> pydict \<Rightarrow> WorkflowState" where
  "merge_result state agent_name result =
     (if agent_name = ''intake'' then state\<lparr>normalized_request := result\<rparr>
      else if agent_name = ''planner'' then
        (let s1 = state\<lparr>execution_plan := dict_get result ''plan'' (POther ''[]'' False),
                        requires_approval := dict_get result ''requires_approval'' (PBool False)\<rparr>
         in if py_truthy (dict_get result ''approval_reason'' PNone)
            then s1\<lparr>pause_reason := dict_get result ''approval_reason'' PNone\<rparr>
            else s1)
      else if agent_name = ''execution'' then
        (let s1 = state\<lparr>translation_output := dict_get result ''translation'' (PStr []),
                        translation_method := dict_get result ''method'' PNone\<rparr>
         in if py_eq_str (translation_method s1) ''mock'' \<and> requested_real_llm s1
            then add_warning ''Mock translation path used.'' s1
            else s1)
      else if agent_name = ''qa'' then
        (let s1 = state\<lparr>qa_result := result\<rparr>
         in if qa_failed s1
            then add_warning ''QA check failed. Workflow may retry or require review.'' s1
            else s1)
      else if agent_name = ''judge'' then
        (let s1 = state\<lparr>judge_result := result\<rparr>;
             action = py_lower (py_str (dict_get result ''action'' (PStr [])))
         in if action = ''retry''
            then add_warning (''Judge requested action: '' @ action @ '' (score=''
                                @ py_str (dict_get result ''score'' (PStr ''n/a'')) @ '').'') s1
            else s1)
      else if agent_name = ''delivery'' then state\<lparr>final_output := result\<rparr>
      else state)"

text \<open>
  \<^verbatim>\<open>MasterAgent._refresh_delivery_metadata\<close>: the status of the envelope is
  refreshed (the copy of the bookkeeping lists into its nested metadata is not modelled).
\<close>

definition refresh_delivery_metadata :: "WorkflowState \<Rightarrow> WorkflowState" where
  "refresh_delivery_metadata state =
     (if final_output state = [] then state
      else state\<lparr>final_output :=
             dict_set (final_output state) ''status''
               (PStr (if run_status state \<noteq> [] then run_status state
                      else WorkflowStatus_value (status state)))\<rparr>)"

text \<open>
  \<^verbatim>\<open>MasterAgent._execute_step\<close>, in the blocks it is written in: the code up to
  the call of the worker (\<open>step_started\<close>), the \<^verbatim>\<open>except\<close> block
  (\<open>step_failed\<close>) and the code after a call that returned (\<open>step_completed\<close>).
  An exception leaves the function with the state as mutated so far: \<open>Step_raised\<close>
  carries the message and that state.
\<close>

definition step_started :: "string \<Rightarrow> WorkflowState \<Rightarrow> WorkflowState" where
  "step_started agent_name state =
     (let s1 = state\<lparr>current_agent := Some agent_name\<rparr>;
          s2 = set_step_status agent_name ''in_progress'' s1
      in emit_event s2 agent_name ''in_progress'' (agent_name @ '' started.'') ''info'')"

definition step_failed :: "string \<Rightarrow> string \<Rightarrow> WorkflowState \<Rightarrow> WorkflowState" where
  "step_failed agent_name exc state =
     emit_event (set_step_status agent_name ''failed'' state) agent_name ''failed'' exc ''error''"

definition step_completed :: "string \<Rightarrow> pydict \<Rightarrow> WorkflowState \<Rightarrow> WorkflowState" where
  "step_completed agent_name result state =
     (let s1 = merge_result state agent_name result;
          s2 = set_step_status agent_name ''completed'' s1;
          s3 = emit_event s2 agent_name ''completed'' (agent_name @ '' completed.'') ''info''
      in if agent_name = ''delivery'' then refresh_delivery_metadata s3 else s3)"

datatype step_result = Step_ok WorkflowState | Step_raised string WorkflowState

definition execute_step :: "MasterAgent \<Rightarrow> string \<Rightarrow> WorkflowState \<Rightarrow> step_result" where
  "execute_step self agent_name state =
     (case worker_agents self agent_name of
        None \<Rightarrow> Step_raised (''Unknown agent: '' @ agent_name) state
      | Some worker \<Rightarrow>
          (let s1 = step_started agent_name state;
               s2 = add_warnings (fst (worker s1)) s1
           in case snd (worker s1) of
                Raises exc \<Rightarrow> Step_raised exc (step_failed agent_name exc s2)
              | Returns result \<Rightarrow> Step_ok (step_completed agent_name result s2)))"

text \<open>\<^verbatim>\<open>MasterAgent._retry_condition\<close>.\<close>

definition retry_condition :: "string option \<Rightarrow> WorkflowState \<Rightarrow> bool" where
  "retry_condition previous_step state =
     (if previous_step = Some ''qa'' then qa_failed state
      else if previous_step = Some ''judge'' then
        py_lower (py_str (dict_get (judge_result state) ''action'' (PStr []))) = ''retry''
      else False)"

text \<open>
  The body of the \<^verbatim>\<open>while\<close> loop of \<^verbatim>\<open>MasterAgent.orchestrate\<close>, in the three
  blocks it is written in: the approval gate (which either continues with
  \<^verbatim>\<open>execution\<close> or returns from \<^verbatim>\<open>orchestrate\<close>), the retry gate, and the
  SLA check.
\<close>

definition retry_gate_fires :: "string \<Rightarrow> string option \<Rightarrow> WorkflowState \<Rightarrow> bool" where
  "retry_gate_fires current_step previous_step state =
     (current_step = ''execution''
      \<and> previous_step \<in> {Some ''qa'', Some ''judge''}
      \<and> retry_condition previous_step state
      \<and> retry_count state < max_retries state)"

definition retry_gate :: "string \<Rightarrow> string option \<Rightarrow> WorkflowState \<Rightarrow> WorkflowState" where
  "retry_gate current_step previous_step state =
     (if retry_gate_fires current_step previous_step state then
        (let s1 = state\<lparr>retry_count := retry_count state + 1\<rparr>;
             retry_message = ''Retrying translation, attempt '' @ str_int (retry_count s1);
             s2 = add_warning retry_message s1
         in emit_event s2 ''execution'' ''retry'' retry_message ''warning'')
      else state)"

definition sla_check :: "MasterAgent \<Rightarrow> WorkflowState \<Rightarrow> WorkflowState" where
  "sla_check self state =
     (if is_breached self state then
        (let sla_warning = ''SLA threshold exceeded'' in
         if sla_warning \<notin> set (warnings state)
         then emit_event (add_warning sla_warning state)
                ''workflow'' ''sla_warning'' sla_warning ''warning''
         else state)
      else state)"

definition approval_auto_approved :: "WorkflowState \<Rightarrow> WorkflowState" where
  "approval_auto_approved state =
     (let s1 = state\<lparr>approval_granted := Some True\<rparr>;
          s2 = s1\<lparr>status := IN_PROGRESS\<rparr>;
          s3 = assign_run_status (WorkflowStatus_value IN_PROGRESS) s2;
          s4 = s3\<lparr>pause_reason := PNone\<rparr>
      in emit_event s4 ''approval'' ''auto_approved''
           ''Approval gate auto-approved by configuration.'' ''info'')"

definition approval_paused :: "WorkflowState \<Rightarrow> WorkflowState" where
  "approval_paused state =
     (let s1 = state\<lparr>status := PAUSED\<rparr>;
          s2 = assign_run_status (WorkflowStatus_value PAUSED) s1;
          s3 = s2\<lparr>pause_reason := PStr ''Awaiting human approval''\<rparr>
      in emit_event s3 ''approval'' ''paused'' (py_str (pause_reason s3)) ''warning'')"

text \<open>The retry gate and \<^verbatim>\<open>state.route_history.append(current_step)\<close>.\<close>

definition enter_step :: "string \<Rightarrow> string option \<Rightarrow> WorkflowState \<Rightarrow> WorkflowState" where
  "enter_step current_step previous_step state =
     (let s1 = retry_gate current_step previous_step state
      in s1\<lparr>route_history := route_history s1 @ [current_step]\<rparr>)"

datatype iteration =
    Continue string "string option" WorkflowState
  | Return_paused WorkflowState
  | Iteration_raised string WorkflowState

definition loop_body ::
  "MasterAgent \<Rightarrow> bool \<Rightarrow> string \<Rightarrow> string option \<Rightarrow> WorkflowState \<Rightarrow> iteration" where
  "loop_body self auto_approve current_step previous_step state =
     (if current_step = ''pause_for_approval'' then
        (if auto_approve then Continue ''execution'' previous_step (approval_auto_approved state)
         else Return_paused (approval_paused state))
      else
        (case execute_step self current_step (enter_step current_step previous_step state) of
           Step_raised exc s \<Rightarrow> Iteration_raised exc s
         | Step_ok s \<Rightarrow>
             (let s' = sla_check self s
              in Continue (determine_next_step current_step s') (Some current_step) s')))"

text \<open>
  The measure under which the loop terminates: the retries still allowed (one less
  when the retry gate is about to fire), then the position of the step in the pipeline.
\<close>

definition retries_left :: "string \<Rightarrow> string option \<Rightarrow> WorkflowState \<Rightarrow> nat" where
  "retries_left current_step previous_step state =
     nat (max_retries state - retry_count state)
       - (if retry_gate_fires current_step previous_step state then 1 else 0)"

definition step_rank :: "string \<Rightarrow> nat" where
  "step_rank step =
     (if step = ''intake'' then 6
      else if step = ''planner'' then 5
      else if step = ''pause_for_approval'' then 4
      else if step = ''execution'' then 3
      else if step = ''qa'' then 2
      else if step = ''delivery'' \<or> step = ''end'' then 0
      else 1)"

section \<open>A concrete request and concrete workers\<close>

text \<open>
  The request of \<^verbatim>\<open>src/utils/mock_data.py\<close> (with a one-line document), and a
  registry of the six steps of \<^verbatim>\<open>WorkflowOrchestrator\<close> whose workers all succeed:
  the planner asks for no approval, QA passes and the judge accepts. They are the
  concrete inputs at which the general theorems below are instantiated.
\<close>

definition sample_request :: request where
  "sample_request =
     \<lparr> rq_source_language = ''en'',
       rq_target_language = ''es'',
       rq_document_type = ''legal'',
       rq_page_count = 3,
       rq_raw_text = ''LEGAL SERVICES AGREEMENT'',
       rq_max_retries = 1,
       rq_parallel_execution = True,
       rq_force_qa_fail_once = False,
       rq_requested_real_llm = False,
       rq_warnings = [] \<rparr>"

section \<open>The router's contract\<close>

lemma py_eq_str_fail: "py_eq_str v ''fail'' \<longleftrightarrow> v \<in> {PQAStatus QA_FAIL, PStr ''fail''}"
proof (cases v)
  case (PQAStatus q)
  then show ?thesis by (cases q) simp_all
qed auto

text \<open>
  C1. The router is a function of the current step name and the state alone, defined
  for every step name (and, being a function to step names, it returns no new state):
  \<^verbatim>\<open>intake\<close> goes to \<^verbatim>\<open>planner\<close>; \<^verbatim>\<open>planner\<close> goes to
  \<^verbatim>\<open>pause_for_approval\<close> exactly when the planner's \<^verbatim>\<open>requires_approval\<close> is true
  and \<^verbatim>\<open>approval_granted\<close> is None, else to \<^verbatim>\<open>execution\<close>; \<^verbatim>\<open>execution\<close>
  goes to \<^verbatim>\<open>qa\<close>; \<^verbatim>\<open>qa\<close> goes to \<^verbatim>\<open>execution\<close> exactly when the QA status
  is fail (the member \<^verbatim>\<open>QAStatus.FAIL\<close> or the string \<^verbatim>\<open>"fail"\<close>) and
  \<^verbatim>\<open>retry_count < max_retries\<close>, else to \<^verbatim>\<open>judge\<close>; \<^verbatim>\<open>judge\<close> goes to
  \<^verbatim>\<open>execution\<close> exactly when the judge's action (default accept, compared in lower
  case) is retry and \<^verbatim>\<open>retry_count < max_retries\<close>, else to \<^verbatim>\<open>delivery\<close>;
  \<^verbatim>\<open>delivery\<close> and every other step name go to \<^verbatim>\<open>end\<close>.
\<close>

theorem determine_next_step_contract:
  "determine_next_step ''intake'' s = ''planner''
   \<and> determine_next_step ''planner'' s =
       (if py_truthy (requires_approval s) \<and> approval_granted s = None
        then ''pause_for_approval'' else ''execution'')
   \<and> determine_next_step ''execution'' s = ''qa''
   \<and> determine_next_step ''qa'' s =
       (if dict_get (qa_result s) ''status'' PNone \<in> {PQAStatus QA_FAIL, PStr ''fail''}
           \<and> retry_count s < max_retries s
        then ''execution'' else ''judge'')
   \<and> determine_next_step ''judge'' s =
       (if py_lower (py_str (dict_get (judge_result s) ''action'' (PStr ''accept''))) = ''retry''
           \<and> retry_count s < max_retries s
        then ''execution'' else ''delivery'')
   \<and> determine_next_step ''delivery'' s = ''end''
   \<and> (step \<notin> {''intake'', ''planner'', ''execution'', ''qa'', ''judge'', ''delivery''}
        \<longrightarrow> determine_next_step step s = ''end'')"
proof -
  have qa: "py_eq_str (dict_get (qa_result s) ''status'' PNone) (QAStatus_value QA_FAIL)
            \<longleftrightarrow> dict_get (qa_result s) ''status'' PNone \<in> {PQAStatus QA_FAIL, PStr ''fail''}"
    using py_eq_str_fail by simp
  show ?thesis
    unfolding determine_next_step_def Let_def qa by simp
qed

theorem determine_next_step_contract_witness:
  "''pause_for_approval'' \<notin> {''intake'', ''planner'', ''execution'', ''qa'', ''judge'', ''delivery''}
   \<and> determine_next_step ''pause_for_approval'' (initial_state sample_request) = ''end''
   \<and> determine_next_step ''qa'' (initial_state sample_request) = ''judge''"
  using determine_next_step_contract [of "initial_state sample_request" "''pause_for_approval''"]
  by (simp add: initial_state_def dict_get_def)

section \<open>The run-status derivation\<close>

text \<open>
  C4. \<^verbatim>\<open>_derive_run_status\<close> returns \<^verbatim>\<open>failed\<close> when the status is failed, otherwise
  \<^verbatim>\<open>paused\<close> when it is paused, otherwise \<^verbatim>\<open>completed_with_warnings\<close> exactly when
  errors is non-empty, or warnings is non-empty, or the QA result has failed
  (\<^verbatim>\<open>_qa_failed\<close>), or the judge's action (default accept, in lower case) is not
  accept, or \<^verbatim>\<open>retry_count > 0\<close>; otherwise \<^verbatim>\<open>completed\<close>. It is a function from
  the state to the label and returns no state: no field, errors and warnings included,
  is written.
\<close>

theorem derive_run_status_contract:
  "derive_run_status s =
     (if status s = FAILED then ''failed''
      else if status s = PAUSED then ''paused''
      else if errors s \<noteq> [] \<or> warnings s \<noteq> [] \<or> qa_failed s
              \<or> py_lower (py_str (dict_get (judge_result s) ''action'' (PStr ''accept''))) \<noteq> ''accept''
              \<or> 0 < retry_count s
           then ''completed_with_warnings''
           else ''completed'')
   \<and> (derive_run_status s = ''completed_with_warnings'' \<longleftrightarrow>
        status s \<noteq> FAILED \<and> status s \<noteq> PAUSED
        \<and> (errors s \<noteq> [] \<or> warnings s \<noteq> [] \<or> qa_failed s
             \<or> py_lower (py_str (dict_get (judge_result s) ''action'' (PStr ''accept''))) \<noteq> ''accept''
             \<or> 0 < retry_count s))"
  unfolding derive_run_status_def Let_def by simp

theorem derive_run_status_contract_witness:
  "derive_run_status (initial_state sample_request) = ''completed''
   \<and> derive_run_status ((initial_state sample_request)\<lparr>retry_count := 1\<rparr>) = ''completed_with_warnings''
   \<and> derive_run_status ((initial_state sample_request)\<lparr>status := FAILED, retry_count := 1\<rparr>) = ''failed''"
  using derive_run_status_contract [of "initial_state sample_request"]
    derive_run_status_contract [of "(initial_state sample_request)\<lparr>retry_count := 1\<rparr>"]
    derive_run_status_contract [of "(initial_state sample_request)\<lparr>status := FAILED, retry_count := 1\<rparr>"]
  by (simp add: initial_state_def sample_request_def qa_failed_def dict_get_def py_lower_def lower_char_def)

section \<open>Which fields each block writes\<close>

text \<open>
  The fields that only the supervisor itself writes, collected so that one equation says
  that a block left all of them alone.
\<close>

definition control_fields ::
  "WorkflowState \<Rightarrow> int \<times> int \<times> string list \<times> WorkflowStatus \<times> string \<times> string list
     \<times> bool option \<times> string list \<times> nat option" where
  "control_fields s = (retry_count s, max_retries s, route_history s, status s, run_status s,
     run_status_assignments s, approval_granted s, errors s, end_time s)"

lemma control_fieldsD:
  assumes "control_fields s' = control_fields s"
  shows "retry_count s' = retry_count s" "max_retries s' = max_retries s"
    "route_history s' = route_history s" "status s' = status s"
    "run_status s' = run_status s" "run_status_assignments s' = run_status_assignments s"
    "approval_granted s' = approval_granted s" "errors s' = errors s" "end_time s' = end_time s"
  using assms by (simp_all add: control_fields_def)

lemma control_fields_emit_event [simp]: "control_fields (emit_event s a b c d) = control_fields s"
  by (simp add: control_fields_def emit_event_def add_event_def)

lemma control_fields_set_step_status [simp]: "control_fields (set_step_status a b s) = control_fields s"
  by (simp add: control_fields_def set_step_status_def)

lemma control_fields_add_warnings [simp]: "control_fields (add_warnings ws s) = control_fields s"
  by (simp add: control_fields_def add_warnings_def)

lemma control_fields_add_warning [simp]: "control_fields (add_warning m s) = control_fields s"
  by (simp add: control_fields_def add_warning_def)

lemma control_fields_current_agent [simp]: "control_fields (s\<lparr>current_agent := x\<rparr>) = control_fields s"
  by (simp add: control_fields_def)

lemma control_fields_refresh [simp]: "control_fields (refresh_delivery_metadata s) = control_fields s"
  by (simp add: control_fields_def refresh_delivery_metadata_def)

lemma control_fields_merge_result [simp]: "control_fields (merge_result s a r) = control_fields s"
  unfolding merge_result_def Let_def
  by (simp add: control_fields_def add_warning_def)

lemma control_fields_step_started [simp]: "control_fields (step_started a s) = control_fields s"
  by (simp add: step_started_def Let_def)

lemma control_fields_step_failed [simp]: "control_fields (step_failed a exc s) = control_fields s"
  by (simp add: step_failed_def)

lemma control_fields_step_completed [simp]: "control_fields (step_completed a r s) = control_fields s"
  by (simp add: step_completed_def Let_def)

lemma control_fields_sla_check [simp]: "control_fields (sla_check self s) = control_fields s"
  by (simp add: sla_check_def Let_def)

text \<open>The fields the router reads from the workers' results, and the pause reason.\<close>

lemma merge_result_fields:
  "requires_approval (merge_result s a r) =
     (if a = ''planner'' then dict_get r ''requires_approval'' (PBool False) else requires_approval s)"
  "qa_result (merge_result s a r) = (if a = ''qa'' then r else qa_result s)"
  "judge_result (merge_result s a r) = (if a = ''judge'' then r else judge_result s)"
  "pause_reason (merge_result s a r) =
     (if a = ''planner'' \<and> py_truthy (dict_get r ''approval_reason'' PNone)
      then dict_get r ''approval_reason'' PNone else pause_reason s)"
  "step_status (merge_result s a r) = step_status s"
  unfolding merge_result_def Let_def by (simp_all add: add_warning_def)

lemma light_fields [simp]:
  "requires_approval (emit_event s a b c d) = requires_approval s"
  "qa_result (emit_event s a b c d) = qa_result s"
  "judge_result (emit_event s a b c d) = judge_result s"
  "pause_reason (emit_event s a b c d) = pause_reason s"
  "step_status (emit_event s a b c d) = step_status s"
  "warnings (emit_event s a b c d) = warnings s"
  "requires_approval (set_step_status a b s) = requires_approval s"
  "qa_result (set_step_status a b s) = qa_result s"
  "judge_result (set_step_status a b s) = judge_result s"
  "pause_reason (set_step_status a b s) = pause_reason s"
  "step_status (set_step_status a b s) = (step_status s)(a \<mapsto> b)"
  "warnings (set_step_status a b s) = warnings s"
  "requires_approval (add_warnings ws s) = requires_approval s"
  "qa_result (add_warnings ws s) = qa_result s"
  "judge_result (add_warnings ws s) = judge_result s"
  "pause_reason (add_warnings ws s) = pause_reason s"
  "step_status (add_warnings ws s) = step_status s"
  "requires_approval (add_warning m s) = requires_approval s"
  "qa_result (add_warning m s) = qa_result s"
  "judge_result (add_warning m s) = judge_result s"
  "pause_reason (add_warning m s) = pause_reason s"
  "step_status (add_warning m s) = step_status s"
  "requires_approval (refresh_delivery_metadata s) = requires_approval s"
  "qa_result (refresh_delivery_metadata s) = qa_result s"
  "judge_result (refresh_delivery_metadata s) = judge_result s"
  "pause_reason (refresh_delivery_metadata s) = pause_reason s"
  "step_status (refresh_delivery_metadata s) = step_status s"
  "warnings (refresh_delivery_metadata s) = warnings s"
  by (simp_all add: emit_event_def add_event_def set_step_status_def add_warnings_def
      add_warning_def refresh_delivery_metadata_def)

lemma step_started_fields [simp]:
  "requires_approval (step_started a s) = requires_approval s"
  "qa_result (step_started a s) = qa_result s"
  "judge_result (step_started a s) = judge_result s"
  "pause_reason (step_started a s) = pause_reason s"
  "step_status (step_started a s) = (step_status s)(a \<mapsto> ''in_progress'')"
  "warnings (step_started a s) = warnings s"
  by (simp_all add: step_started_def Let_def)

lemma step_failed_fields [simp]:
  "requires_approval (step_failed a exc s) = requires_approval s"
  "qa_result (step_failed a exc s) = qa_result s"
  "judge_result (step_failed a exc s) = judge_result s"
  "pause_reason (step_failed a exc s) = pause_reason s"
  "step_status (step_failed a exc s) = (step_status s)(a \<mapsto> ''failed'')"
  "warnings (step_failed a exc s) = warnings s"
  by (simp_all add: step_failed_def)

lemma step_completed_fields [simp]:
  "requires_approval (step_completed a r s) =
     (if a = ''planner'' then dict_get r ''requires_approval'' (PBool False) else requires_approval s)"
  "qa_result (step_completed a r s) = (if a = ''qa'' then r else qa_result s)"
  "judge_result (step_completed a r s) = (if a = ''judge'' then r else judge_result s)"
  "pause_reason (step_completed a r s) =
     (if a = ''planner'' \<and> py_truthy (dict_get r ''approval_reason'' PNone)
      then dict_get r ''approval_reason'' PNone else pause_reason s)"
  "step_status (step_completed a r s) = (step_status s)(a \<mapsto> ''completed'')"
  by (simp_all add: step_completed_def Let_def merge_result_fields)

lemma sla_check_fields [simp]:
  "requires_approval (sla_check self s) = requires_approval s"
  "qa_result (sla_check self s) = qa_result s"
  "judge_result (sla_check self s) = judge_result s"
  "pause_reason (sla_check self s) = pause_reason s"
  "step_status (sla_check self s) = step_status s"
  by (simp_all add: sla_check_def Let_def)

lemma retry_gate_fields [simp]:
  "retry_count (retry_gate cur prev s) =
     (if retry_gate_fires cur prev s then retry_count s + 1 else retry_count s)"
  "max_retries (retry_gate cur prev s) = max_retries s"
  "route_history (retry_gate cur prev s) = route_history s"
  "status (retry_gate cur prev s) = status s"
  "run_status (retry_gate cur prev s) = run_status s"
  "run_status_assignments (retry_gate cur prev s) = run_status_assignments s"
  "approval_granted (retry_gate cur prev s) = approval_granted s"
  "errors (retry_gate cur prev s) = errors s"
  "end_time (retry_gate cur prev s) = end_time s"
  "requires_approval (retry_gate cur prev s) = requires_approval s"
  "qa_result (retry_gate cur prev s) = qa_result s"
  "judge_result (retry_gate cur prev s) = judge_result s"
  "pause_reason (retry_gate cur prev s) = pause_reason s"
  "step_status (retry_gate cur prev s) = step_status s"
  by (simp_all add: retry_gate_def Let_def emit_event_def add_event_def add_warning_def)

lemma enter_step_fields [simp]:
  "retry_count (enter_step cur prev s) =
     (if retry_gate_fires cur prev s then retry_count s + 1 else retry_count s)"
  "max_retries (enter_step cur prev s) = max_retries s"
  "route_history (enter_step cur prev s) = route_history s @ [cur]"
  "status (enter_step cur prev s) = status s"
  "run_status (enter_step cur prev s) = run_status s"
  "run_status_assignments (enter_step cur prev s) = run_status_assignments s"
  "approval_granted (enter_step cur prev s) = approval_granted s"
  "errors (enter_step cur prev s) = errors s"
  "end_time (enter_step cur prev s) = end_time s"
  "requires_approval (enter_step cur prev s) = requires_approval s"
  "qa_result (enter_step cur prev s) = qa_result s"
  "judge_result (enter_step cur prev s) = judge_result s"
  "pause_reason (enter_step cur prev s) = pause_reason s"
  "step_status (enter_step cur prev s) = step_status s"
  by (simp_all add: enter_step_def Let_def)

lemma approval_auto_approved_fields [simp]:
  "retry_count (approval_auto_approved s) = retry_count s"
  "max_retries (approval_auto_approved s) = max_retries s"
  "route_history (approval_auto_approved s) = route_history s"
  "status (approval_auto_approved s) = IN_PROGRESS"
  "run_status (approval_auto_approved s) = ''in_progress''"
  "run_status_assignments (approval_auto_approved s) = run_status_assignments s @ [''in_progress'']"
  "approval_granted (approval_auto_approved s) = Some True"
  "errors (approval_auto_approved s) = errors s"
  "end_time (approval_auto_approved s) = end_time s"
  "requires_approval (approval_auto_approved s) = requires_approval s"
  "qa_result (approval_auto_approved s) = qa_result s"
  "judge_result (approval_auto_approved s) = judge_result s"
  "pause_reason (approval_auto_approved s) = PNone"
  "step_status (approval_auto_approved s) = step_status s"
  by (simp_all add: approval_auto_approved_def Let_def emit_event_def add_event_def
      assign_run_status_def)

lemma approval_paused_fields [simp]:
  "retry_count (approval_paused s) = retry_count s"
  "max_retries (approval_paused s) = max_retries s"
  "route_history (approval_paused s) = route_history s"
  "status (approval_paused s) = PAUSED"
  "run_status (approval_paused s) = ''paused''"
  "run_status_assignments (approval_paused s) = run_status_assignments s @ [''paused'']"
  "approval_granted (approval_paused s) = approval_granted s"
  "errors (approval_paused s) = errors s"
  "end_time (approval_paused s) = end_time s"
  "pause_reason (approval_paused s) = PStr ''Awaiting human approval''"
  "step_status (approval_paused s) = step_status s"
  by (simp_all add: approval_paused_def Let_def emit_event_def add_event_def
      assign_run_status_def)

text \<open>What \<^verbatim>\<open>_execute_step\<close> did, read off its result.\<close>

lemma execute_step_ok_control:
  "execute_step self a s = Step_ok s' \<Longrightarrow> control_fields s' = control_fields s"
  unfolding execute_step_def Let_def
  by (auto split: option.splits wresult.splits)

lemma execute_step_raised_control:
  "execute_step self a s = Step_raised exc s' \<Longrightarrow> control_fields s' = control_fields s"
  unfolding execute_step_def Let_def
  by (auto split: option.splits wresult.splits)

lemma execute_step_okE:
  assumes "execute_step self a s = Step_ok s'"
  obtains w r where "worker_agents self a = Some w"
    and "snd (w (step_started a s)) = Returns r"
    and "s' = step_completed a r (add_warnings (fst (w (step_started a s))) (step_started a s))"
  using assms unfolding execute_step_def Let_def
  by (auto split: option.splits wresult.splits)

lemma execute_step_raisedE:
  assumes "execute_step self a s = Step_raised exc s'"
  obtains (unknown) "worker_agents self a = None" "exc = ''Unknown agent: '' @ a" "s' = s"
  | (raised) w where "worker_agents self a = Some w"
    and "snd (w (step_started a s)) = Raises exc"
    and "s' = step_failed a exc (add_warnings (fst (w (step_started a s))) (step_started a s))"
  using assms unfolding execute_step_def Let_def
  by (auto split: option.splits wresult.splits)

lemma execute_step_returns:
  assumes "worker_agents self a = Some w" "snd (w (step_started a s)) = Returns r"
  shows "execute_step self a s
         = Step_ok (step_completed a r (add_warnings (fst (w (step_started a s))) (step_started a s)))"
  using assms by (simp add: execute_step_def Let_def)


lemma execute_step_ok_fields:
  assumes "execute_step self a s = Step_ok s'"
  shows "a \<noteq> ''planner'' \<Longrightarrow> requires_approval s' = requires_approval s"
    "a \<noteq> ''qa'' \<Longrightarrow> qa_result s' = qa_result s"
    "a \<noteq> ''judge'' \<Longrightarrow> judge_result s' = judge_result s"
    "a \<noteq> ''planner'' \<Longrightarrow> pause_reason s' = pause_reason s"
    "step_status s' = (step_status s)(a \<mapsto> ''completed'')"
  using assms by (auto elim!: execute_step_okE)
section \<open>Termination of the supervisor loop\<close>

lemma py_lower_fail: "py_lower ''fail'' = ''fail''"
  by (simp add: py_lower_def lower_char_def)

lemma py_lower_accept_retry: "py_lower ''accept'' \<noteq> ''retry''"
  by (simp add: py_lower_def lower_char_def)

lemma py_eq_str_fail_qa_failed:
  "py_eq_str (dict_get (qa_result s) ''status'' PNone) ''fail'' \<Longrightarrow> qa_failed s"
  unfolding qa_failed_def Let_def
  by (cases "dict_get (qa_result s) ''status'' PNone") (auto simp: py_lower_fail elim: QAStatus_value.elims)

lemma judge_retry_defaults:
  "py_lower (py_str (dict_get d ''action'' (PStr ''accept''))) = ''retry''
   \<longleftrightarrow> py_lower (py_str (dict_get d ''action'' (PStr []))) = ''retry''"
  by (auto simp: dict_get_def py_lower_accept_retry py_lower_def split: option.splits)

text \<open>The router sends qa or judge back to execution only when the retry gate will fire.\<close>

lemma router_retry_gate:
  assumes "cur = ''qa'' \<or> cur = ''judge''" "determine_next_step cur s = ''execution''"
  shows "retry_gate_fires ''execution'' (Some cur) s"
  using assms py_eq_str_fail_qa_failed[of s] judge_retry_defaults[of "judge_result s"]
  unfolding determine_next_step_def retry_gate_fires_def retry_condition_def Let_def
  by (auto split: if_splits)

lemma router_range:
  "determine_next_step cur s \<in> {''planner'', ''pause_for_approval'', ''execution'', ''qa'', ''judge'', ''delivery'', ''end''}"
  unfolding determine_next_step_def Let_def by simp



lemma retry_gate_fires_lt: "retry_gate_fires cur prev s \<Longrightarrow> retry_count s < max_retries s"
  by (simp add: retry_gate_fires_def)

text \<open>What one iteration that continues did.\<close>

lemma loop_body_Continue_pause:
  assumes "loop_body self auto ''pause_for_approval'' prev s = Continue c p s'"
  shows "auto" "c = ''execution''" "p = prev" "s' = approval_auto_approved s"
  using assms by (auto simp: loop_body_def split: if_splits)

lemma loop_body_Continue_step:
  assumes "cur \<noteq> ''pause_for_approval''" "loop_body self auto cur prev s = Continue c p s'"
  obtains t where "execute_step self cur (enter_step cur prev s) = Step_ok t"
    and "s' = sla_check self t" and "p = Some cur" and "c = determine_next_step cur s'"
  using assms by (auto simp: loop_body_def Let_def split: step_result.splits)

lemma loop_body_Continue_fields:
  assumes "cur \<noteq> ''pause_for_approval''" "loop_body self auto cur prev s = Continue c p s'"
  shows "p = Some cur" "c = determine_next_step cur s'"
    "retry_count s' = (if retry_gate_fires cur prev s then retry_count s + 1 else retry_count s)"
    "max_retries s' = max_retries s"
    "route_history s' = route_history s @ [cur]"
    "status s' = status s"
    "run_status s' = run_status s"
    "run_status_assignments s' = run_status_assignments s"
    "approval_granted s' = approval_granted s"
    "errors s' = errors s"
    "end_time s' = end_time s"
    "cur \<noteq> ''planner'' \<Longrightarrow> requires_approval s' = requires_approval s"
    "cur \<noteq> ''qa'' \<Longrightarrow> qa_result s' = qa_result s"
    "cur \<noteq> ''judge'' \<Longrightarrow> judge_result s' = judge_result s"
proof -
  from assms obtain t where t: "execute_step self cur (enter_step cur prev s) = Step_ok t"
    and s': "s' = sla_check self t" and p: "p = Some cur" and c: "c = determine_next_step cur s'"
    by (rule loop_body_Continue_step)
  have cf: "control_fields s' = control_fields (enter_step cur prev s)"
    using execute_step_ok_control[OF t] s' by simp
  show "p = Some cur" "c = determine_next_step cur s'" by (fact p, fact c)
  show "retry_count s' = (if retry_gate_fires cur prev s then retry_count s + 1 else retry_count s)"
    "max_retries s' = max_retries s"
    "route_history s' = route_history s @ [cur]"
    "status s' = status s"
    "run_status s' = run_status s"
    "run_status_assignments s' = run_status_assignments s"
    "approval_granted s' = approval_granted s"
    "errors s' = errors s"
    "end_time s' = end_time s"
    using control_fieldsD[OF cf] by simp_all
  show "cur \<noteq> ''planner'' \<Longrightarrow> requires_approval s' = requires_approval s"
    "cur \<noteq> ''qa'' \<Longrightarrow> qa_result s' = qa_result s"
    "cur \<noteq> ''judge'' \<Longrightarrow> judge_result s' = judge_result s"
    using execute_step_ok_fields[OF t] s' by simp_all
qed

lemma router_rank:
  assumes "cur \<notin> {''end'', ''delivery'', ''pause_for_approval''}"
    and "determine_next_step cur s \<noteq> ''execution''"
  shows "step_rank (determine_next_step cur s) < step_rank cur"
proof -
  have "cur = ''intake'' \<or> cur = ''planner'' \<or> cur = ''execution'' \<or> cur = ''qa''
        \<or> cur = ''judge'' \<or> cur \<notin> {''intake'', ''planner'', ''execution'', ''qa'', ''judge''}"
    by blast
  then show ?thesis
  proof (elim disjE)
    assume "cur = ''intake''"
    then show ?thesis by (simp add: determine_next_step_def step_rank_def)
  next
    assume "cur = ''planner''"
    then show ?thesis using assms(2) by (auto simp: determine_next_step_def step_rank_def split: if_splits)
  next
    assume "cur = ''execution''"
    then show ?thesis by (simp add: determine_next_step_def step_rank_def)
  next
    assume "cur = ''qa''"
    then show ?thesis using assms(2) by (auto simp: determine_next_step_def step_rank_def Let_def split: if_splits)
  next
    assume "cur = ''judge''"
    then show ?thesis using assms(2) by (auto simp: determine_next_step_def step_rank_def Let_def split: if_splits)
  next
    assume "cur \<notin> {''intake'', ''planner'', ''execution'', ''qa'', ''judge''}"
    then show ?thesis using assms(1) by (simp add: determine_next_step_def step_rank_def)
  qed
qed

lemma loop_body_measure:
  assumes "cur \<notin> {''end'', ''delivery''}" "loop_body self auto cur prev s = Continue c p s'"
  shows "retries_left c p s' < retries_left cur prev s
         \<or> (retries_left c p s' = retries_left cur prev s \<and> step_rank c < step_rank cur)"
proof (cases "cur = ''pause_for_approval''")
  case True
  note f = loop_body_Continue_pause[OF assms(2)[unfolded True]]
  have "\<not> retry_gate_fires ''pause_for_approval'' prev s"
    by (simp add: retry_gate_fires_def)
  then have "retries_left c p s' \<le> retries_left cur prev s"
    using f by (simp add: retries_left_def True)
  moreover have "step_rank c < step_rank cur"
    using f True by (simp add: step_rank_def)
  ultimately show ?thesis by linarith
next
  case False
  note f = loop_body_Continue_fields[OF False assms(2)]
  note rc = f(3) and mx = f(4)
  show ?thesis
  proof (cases "c = ''execution''")
    case True
    then have cur: "cur = ''planner'' \<or> cur = ''qa'' \<or> cur = ''judge''"
      using f(2) by (auto simp: determine_next_step_def Let_def split: if_splits)
    then have nofire: "\<not> retry_gate_fires cur prev s"
      by (auto simp: retry_gate_fires_def)
    show ?thesis
    proof (cases "cur = ''planner''")
      case True
      then have "\<not> retry_gate_fires c p s'"
        using f(1) by (simp add: retry_gate_fires_def)
      then show ?thesis
        using nofire rc mx True \<open>c = ''execution''\<close>
        by (simp add: retries_left_def step_rank_def)
    next
      case False
      then have "cur = ''qa'' \<or> cur = ''judge''" using cur by simp
      then have fire: "retry_gate_fires c p s'"
        using router_retry_gate[of cur s'] f(1,2) True by simp
      then have "retry_count s' < max_retries s'" by (rule retry_gate_fires_lt)
      then show ?thesis
        using nofire fire rc mx by (simp add: retries_left_def)
    qed
  next
    case False
    then have nofire': "\<not> retry_gate_fires c p s'"
      by (auto simp: retry_gate_fires_def)
    have rank: "step_rank c < step_rank cur"
      using router_rank[of cur s'] f(2) False assms(1) \<open>cur \<noteq> ''pause_for_approval''\<close>
      by simp
    have "retries_left c p s' = retries_left cur prev s"
      using nofire' rc mx retry_gate_fires_lt[of cur prev s]
      by (auto simp: retries_left_def)
    then show ?thesis using rank by simp
  qed
qed

text \<open>
  The \<^verbatim>\<open>while current_step not in {"end", "delivery"}\<close> loop. It ends by leaving
  the loop with the step it stopped at, by the \<^verbatim>\<open>return state\<close> of the approval
  gate, or by an exception.
\<close>

datatype loop_result =
    Loop_exit string WorkflowState
  | Loop_return WorkflowState
  | Loop_raised string WorkflowState

function supervisor_loop ::
  "MasterAgent \<Rightarrow> bool \<Rightarrow> string \<Rightarrow> string option \<Rightarrow> WorkflowState \<Rightarrow> loop_result" where
  "supervisor_loop self auto_approve current_step previous_step state =
     (if current_step \<in> {''end'', ''delivery''} then Loop_exit current_step state
      else case loop_body self auto_approve current_step previous_step state of
             Continue next_step prev s \<Rightarrow> supervisor_loop self auto_approve next_step prev s
           | Return_paused s \<Rightarrow> Loop_return s
           | Iteration_raised exc s \<Rightarrow> Loop_raised exc s)"
  by pat_completeness auto
termination
proof (relation "measures [\<lambda>(self, auto, cur, prev, s). retries_left cur prev s,
                           \<lambda>(self, auto, cur, prev, s). step_rank cur]")
  show "wf (measures [\<lambda>(self, auto, cur, prev, s). retries_left cur prev s,
                      \<lambda>(self, auto, cur, prev, s). step_rank cur])"
    by simp
next
  fix self auto_approve current_step previous_step state x1 x2 x3
  assume "current_step \<notin> {''end'', ''delivery''}"
    and "loop_body self auto_approve current_step previous_step state = Continue x1 x2 x3"
  from loop_body_measure[OF this]
  show "((self, auto_approve, x1, x2, x3), (self, auto_approve, current_step, previous_step, state))
        \<in> measures [\<lambda>(self, auto, cur, prev, s). retries_left cur prev s,
                     \<lambda>(self, auto, cur, prev, s). step_rank cur]"
    by auto
qed

section \<open>orchestrate\<close>

text \<open>
  \<^verbatim>\<open>MasterAgent.orchestrate\<close>. \<open>start_state\<close> is the code before the
  \<^verbatim>\<open>try\<close>; \<open>delivery_block\<close> is the \<^verbatim>\<open>if current_step == "delivery"\<close> block
  after the loop; \<open>finalize\<close> is the code from there to \<^verbatim>\<open>return state\<close>;
  \<open>except_handler\<close> is the \<^verbatim>\<open>except Exception\<close> block. The body of the
  \<^verbatim>\<open>try\<close> either returns a state or raises with the state as mutated so far.
\<close>

definition start_state :: "MasterAgent \<Rightarrow> request \<Rightarrow> WorkflowState" where
  "start_state self initial_request =
     (let s0 = initial_state initial_request;
          s1 = s0\<lparr>start_time := Some (utcnow self s0)\<rparr>;
          s2 = s1\<lparr>status := IN_PROGRESS\<rparr>;
          s3 = assign_run_status (WorkflowStatus_value IN_PROGRESS) s2;
          s4 = s3\<lparr>step_status :=
                    (\<lambda>step. if step \<in> dom (worker_agents self) then Some ''pending'' else None)\<rparr>
      in emit_event s4 ''workflow'' ''started'' ''Workflow started.'' ''info'')"

definition delivery_entry :: "MasterAgent \<Rightarrow> WorkflowState \<Rightarrow> WorkflowState" where
  "delivery_entry self state =
     (let s1 = state\<lparr>route_history := route_history state @ [''delivery'']\<rparr>;
          s2 = s1\<lparr>status := COMPLETED\<rparr>;
          s3 = s2\<lparr>end_time := Some (utcnow self s2)\<rparr>
      in assign_run_status (derive_run_status s3) s3)"

definition delivery_block :: "MasterAgent \<Rightarrow> WorkflowState \<Rightarrow> step_result" where
  "delivery_block self state = execute_step self ''delivery'' (delivery_entry self state)"

definition finalize :: "MasterAgent \<Rightarrow> WorkflowState \<Rightarrow> WorkflowState" where
  "finalize self state =
     (let s1 = state\<lparr>status := COMPLETED\<rparr>;
          s2 = s1\<lparr>end_time := (case end_time s1 of Some t \<Rightarrow> Some t
                                  | None \<Rightarrow> Some (utcnow self s1))\<rparr>;
          s3 = assign_run_status (derive_run_status s2) s2
      in emit_event s3 ''workflow'' (run_status s3)
           (''Workflow finished with status: '' @ run_status s3) ''info'')"

datatype try_result = Returned WorkflowState | Raised string WorkflowState

definition try_block :: "MasterAgent \<Rightarrow> bool \<Rightarrow> WorkflowState \<Rightarrow> try_result" where
  "try_block self auto_approve state =
     (case supervisor_loop self auto_approve ''intake'' None state of
        Loop_return s \<Rightarrow> Returned s
      | Loop_raised exc s \<Rightarrow> Raised exc s
      | Loop_exit current_step s \<Rightarrow>
          (case (if current_step = ''delivery'' then delivery_block self s else Step_ok s) of
             Step_raised exc s' \<Rightarrow> Raised exc s'
           | Step_ok s' \<Rightarrow> Returned (finalize self s')))"

definition except_handler :: "MasterAgent \<Rightarrow> string \<Rightarrow> WorkflowState \<Rightarrow> WorkflowState" where
  "except_handler self exc state =
     (let s1 = state\<lparr>status := FAILED\<rparr>;
          s2 = s1\<lparr>end_time := Some (utcnow self s1)\<rparr>;
          s3 = assign_run_status (WorkflowStatus_value FAILED) s2;
          s4 = add_error exc s3
      in emit_event s4
           (case current_agent s4 of None \<Rightarrow> ''workflow''
            | Some a \<Rightarrow> if a = [] then ''workflow'' else a)
           ''failed'' exc ''error'')"

definition orchestrate :: "MasterAgent \<Rightarrow> request \<Rightarrow> bool \<Rightarrow> WorkflowState" where
  "orchestrate self initial_request auto_approve =
     (case try_block self auto_approve (start_state self initial_request) of
        Returned s \<Rightarrow> s
      | Raised exc s \<Rightarrow> except_handler self exc s)"

section \<open>The points of a run\<close>

text \<open>
  The configurations (current step, previous step, state) with which a run stands at
  the head of the loop: the first one, and the one each completed iteration leaves.
  Together with the state that \<open>orchestrate\<close> returns they show every value that the
  fields written by the supervisor take between two iterations.
\<close>

inductive reachable ::
  "MasterAgent \<Rightarrow> bool \<Rightarrow> request \<Rightarrow> string \<Rightarrow> string option \<Rightarrow> WorkflowState \<Rightarrow> bool"
  for self :: MasterAgent and auto_approve :: bool and rq :: request where
  start: "reachable self auto_approve rq ''intake'' None (start_state self rq)"
| iterate: "reachable self auto_approve rq cur prev s \<Longrightarrow>
      cur \<notin> {''end'', ''delivery''} \<Longrightarrow>
      loop_body self auto_approve cur prev s = Continue c p s' \<Longrightarrow>
      reachable self auto_approve rq c p s'"

code_pred reachable .

text \<open>How the loop ends, in terms of the configurations it went through.\<close>

lemma supervisor_loop_from_reachable:
  assumes "reachable self auto rq cur prev s"
  shows "case supervisor_loop self auto cur prev s of
           Loop_exit c s' \<Rightarrow> c \<in> {''end'', ''delivery''} \<and> (\<exists>p. reachable self auto rq c p s')
         | Loop_return s' \<Rightarrow>
             (\<exists>c p s0. reachable self auto rq c p s0 \<and> c \<notin> {''end'', ''delivery''}
                \<and> loop_body self auto c p s0 = Return_paused s')
         | Loop_raised exc s' \<Rightarrow>
             (\<exists>c p s0. reachable self auto rq c p s0 \<and> c \<notin> {''end'', ''delivery''}
                \<and> loop_body self auto c p s0 = Iteration_raised exc s')"
  using assms
proof (induction self auto cur prev s rule: supervisor_loop.induct)
  case (1 self auto cur prev s)
  show ?case
  proof (cases "cur \<in> {''end'', ''delivery''}")
    case True
    then show ?thesis using "1.prems" by (auto simp: supervisor_loop.simps[of self auto cur prev s])
  next
    case False
    show ?thesis
    proof (cases "loop_body self auto cur prev s")
      case (Continue c p s')
      have "reachable self auto rq c p s'"
        using reachable.iterate[OF "1.prems" False Continue] .
      from "1.IH"[OF False Continue this] show ?thesis
        using False Continue by (simp add: supervisor_loop.simps[of self auto cur prev s])
    next
      case (Return_paused s')
      then show ?thesis using False "1.prems"
        by (auto simp: supervisor_loop.simps[of self auto cur prev s])
    next
      case (Iteration_raised exc s')
      then show ?thesis using False "1.prems"
        by (auto simp: supervisor_loop.simps[of self auto cur prev s])
    qed
  qed
qed

lemma supervisor_loop_reachable_eq:
  assumes "reachable self auto rq cur prev s"
  shows "supervisor_loop self auto cur prev s
         = supervisor_loop self auto ''intake'' None (start_state self rq)"
  using assms
proof (induction rule: reachable.induct)
  case start
  show ?case by simp
next
  case (iterate cur prev s c p s')
  have "supervisor_loop self auto cur prev s = supervisor_loop self auto c p s'"
    using iterate.hyps(2,3) by (simp add: supervisor_loop.simps[of self auto cur prev s])
  then show ?case using iterate.IH by simp
qed

section \<open>The shape of a run\<close>

lemma derive_run_status_cong:
  assumes "status s' = status s" "errors s' = errors s" "warnings s' = warnings s"
    "qa_result s' = qa_result s" "judge_result s' = judge_result s"
    "retry_count s' = retry_count s"
  shows "derive_run_status s' = derive_run_status s"
  using assms by (simp add: derive_run_status_def qa_failed_def)

lemma derive_run_status_completed:
  assumes "status s = COMPLETED"
  shows "derive_run_status s = ''completed'' \<or> derive_run_status s = ''completed_with_warnings''"
  using assms by (simp add: derive_run_status_def Let_def)

lemma start_state_fields [simp]:
  "retry_count (start_state self rq) = 0"
  "max_retries (start_state self rq) = rq_max_retries rq"
  "route_history (start_state self rq) = []"
  "status (start_state self rq) = IN_PROGRESS"
  "run_status (start_state self rq) = ''in_progress''"
  "run_status_assignments (start_state self rq) = [''in_progress'']"
  "approval_granted (start_state self rq) = None"
  "errors (start_state self rq) = []"
  "end_time (start_state self rq) = None"
  "requires_approval (start_state self rq) = PBool False"
  "qa_result (start_state self rq) = []"
  "judge_result (start_state self rq) = []"
  "pause_reason (start_state self rq) = PNone"
  "step_status (start_state self rq) =
     (\<lambda>step. if step \<in> dom (worker_agents self) then Some ''pending'' else None)"
  "warnings (start_state self rq) = rq_warnings rq"
  by (simp_all add: start_state_def Let_def initial_state_def emit_event_def add_event_def
      assign_run_status_def)

lemma delivery_entry_label:
  "derive_run_status
     (state\<lparr>route_history := rh, status := COMPLETED, end_time := et\<rparr>)
   = derive_run_status (state\<lparr>status := COMPLETED\<rparr>)"
  by (rule derive_run_status_cong) simp_all

lemma delivery_entry_fields [simp]:
  "retry_count (delivery_entry self s) = retry_count s"
  "max_retries (delivery_entry self s) = max_retries s"
  "route_history (delivery_entry self s) = route_history s @ [''delivery'']"
  "status (delivery_entry self s) = COMPLETED"
  "run_status (delivery_entry self s) = derive_run_status (s\<lparr>status := COMPLETED\<rparr>)"
  "run_status_assignments (delivery_entry self s)
     = run_status_assignments s @ [derive_run_status (s\<lparr>status := COMPLETED\<rparr>)]"
  "approval_granted (delivery_entry self s) = approval_granted s"
  "errors (delivery_entry self s) = errors s"
  "end_time (delivery_entry self s) \<noteq> None"
  "requires_approval (delivery_entry self s) = requires_approval s"
  "qa_result (delivery_entry self s) = qa_result s"
  "judge_result (delivery_entry self s) = judge_result s"
  "pause_reason (delivery_entry self s) = pause_reason s"
  "step_status (delivery_entry self s) = step_status s"
  "warnings (delivery_entry self s) = warnings s"
  by (simp_all add: delivery_entry_def Let_def assign_run_status_def delivery_entry_label)

lemma finalize_label:
  "derive_run_status (state\<lparr>status := COMPLETED, end_time := et\<rparr>)
   = derive_run_status (state\<lparr>status := COMPLETED\<rparr>)"
  by (rule derive_run_status_cong) simp_all

lemma finalize_fields [simp]:
  "retry_count (finalize self s) = retry_count s"
  "max_retries (finalize self s) = max_retries s"
  "route_history (finalize self s) = route_history s"
  "status (finalize self s) = COMPLETED"
  "run_status (finalize self s) = derive_run_status (s\<lparr>status := COMPLETED\<rparr>)"
  "run_status_assignments (finalize self s)
     = run_status_assignments s @ [derive_run_status (s\<lparr>status := COMPLETED\<rparr>)]"
  "approval_granted (finalize self s) = approval_granted s"
  "errors (finalize self s) = errors s"
  "end_time (finalize self s) \<noteq> None"
  "pause_reason (finalize self s) = pause_reason s"
  "step_status (finalize self s) = step_status s"
  "warnings (finalize self s) = warnings s"
  by (simp_all add: finalize_def Let_def assign_run_status_def emit_event_def add_event_def
      finalize_label split: option.splits)

lemma except_handler_fields [simp]:
  "retry_count (except_handler self exc s) = retry_count s"
  "max_retries (except_handler self exc s) = max_retries s"
  "route_history (except_handler self exc s) = route_history s"
  "status (except_handler self exc s) = FAILED"
  "run_status (except_handler self exc s) = ''failed''"
  "run_status_assignments (except_handler self exc s) = run_status_assignments s @ [''failed'']"
  "approval_granted (except_handler self exc s) = approval_granted s"
  "errors (except_handler self exc s) = add_msg (errors s) exc"
  "end_time (except_handler self exc s) \<noteq> None"
  "pause_reason (except_handler self exc s) = pause_reason s"
  "step_status (except_handler self exc s) = step_status s"
  "warnings (except_handler self exc s) = warnings s"
  by (simp_all add: except_handler_def Let_def assign_run_status_def emit_event_def
      add_event_def add_error_def)


text \<open>The loop only ever stands at one of the six steps or at the approval gate.\<close>

lemma router_known:
  assumes "cur \<in> {''intake'', ''planner'', ''execution'', ''qa'', ''judge''}"
  shows "determine_next_step cur s
         \<in> {''planner'', ''pause_for_approval'', ''execution'', ''qa'', ''judge'', ''delivery''}"
  using assms unfolding determine_next_step_def Let_def by auto

lemma reachable_step_names:
  assumes "reachable self auto rq cur prev s"
  shows "cur \<in> {''intake'', ''planner'', ''pause_for_approval'', ''execution'', ''qa'', ''judge'',
                 ''delivery''}"
  using assms
proof (induction rule: reachable.induct)
  case start
  show ?case by simp
next
  case (iterate cur prev s c p s')
  show ?case
  proof (cases "cur = ''pause_for_approval''")
    case True
    then show ?thesis using loop_body_Continue_pause(2)[of self auto prev s c p s'] iterate.hyps(3)
      by simp
  next
    case False
    then have "cur \<in> {''intake'', ''planner'', ''execution'', ''qa'', ''judge''}"
      using iterate.IH iterate.hyps(2) by auto
    from router_known[OF this, of s'] loop_body_Continue_fields(2)[OF False iterate.hyps(3)]
    show ?thesis by auto
  qed
qed

lemma loop_body_Return_paused:
  assumes "loop_body self auto cur prev s = Return_paused s'"
  shows "cur = ''pause_for_approval''" "\<not> auto" "s' = approval_paused s"
  using assms by (auto simp: loop_body_def Let_def split: if_splits step_result.splits)

lemma loop_body_Iteration_raised:
  assumes "loop_body self auto cur prev s = Iteration_raised exc s'"
  shows "cur \<noteq> ''pause_for_approval''"
    "execute_step self cur (enter_step cur prev s) = Step_raised exc s'"
  using assms by (auto simp: loop_body_def Let_def split: if_splits step_result.splits)

text \<open>
  The four ways in which \<open>orchestrate\<close> returns: from the approval gate, from the
  \<^verbatim>\<open>except\<close> block after a step of the loop raised, from the \<^verbatim>\<open>except\<close> block
  after the delivery step raised, and from the end of the function.
\<close>

lemma orchestrate_cases [case_names paused raised delivery_raised completed]:
  obtains
    (paused) p s where "reachable self auto rq ''pause_for_approval'' p s" "\<not> auto"
      "orchestrate self rq auto = approval_paused s"
  | (raised) c p s exc s' where "reachable self auto rq c p s"
      "c \<notin> {''end'', ''delivery'', ''pause_for_approval''}"
      "execute_step self c (enter_step c p s) = Step_raised exc s'"
      "try_block self auto (start_state self rq) = Raised exc s'"
      "orchestrate self rq auto = except_handler self exc s'"
  | (delivery_raised) p s exc s' where "reachable self auto rq ''delivery'' p s"
      "delivery_block self s = Step_raised exc s'"
      "try_block self auto (start_state self rq) = Raised exc s'"
      "orchestrate self rq auto = except_handler self exc s'"
  | (completed) p s s' where "reachable self auto rq ''delivery'' p s"
      "delivery_block self s = Step_ok s'"
      "orchestrate self rq auto = finalize self s'"
proof (cases "supervisor_loop self auto ''intake'' None (start_state self rq)")
  case (Loop_exit c s)
  with supervisor_loop_from_reachable[OF reachable.start, of self auto rq]
  obtain p where c: "c \<in> {''end'', ''delivery''}" and r: "reachable self auto rq c p s"
    by auto
  from reachable_step_names[OF r] c have cd: "c = ''delivery''" by auto
  show ?thesis
  proof (cases "delivery_block self s")
    case (Step_ok s')
    then have "orchestrate self rq auto = finalize self s'"
      using Loop_exit cd by (simp add: orchestrate_def try_block_def)
    then show ?thesis using completed r cd Step_ok by blast
  next
    case (Step_raised exc s')
    then have "try_block self auto (start_state self rq) = Raised exc s'"
      using Loop_exit cd by (simp add: try_block_def)
    moreover from this have "orchestrate self rq auto = except_handler self exc s'"
      by (simp add: orchestrate_def)
    ultimately show ?thesis using delivery_raised r cd Step_raised by blast
  qed
next
  case (Loop_return s')
  with supervisor_loop_from_reachable[OF reachable.start, of self auto rq]
  obtain c p s0 where r: "reachable self auto rq c p s0"
    and b: "loop_body self auto c p s0 = Return_paused s'"
    by auto
  note f = loop_body_Return_paused[OF b]
  have "orchestrate self rq auto = approval_paused s0"
    using Loop_return f(3) by (simp add: orchestrate_def try_block_def)
  then show ?thesis using paused r f by blast
next
  case (Loop_raised exc s')
  with supervisor_loop_from_reachable[OF reachable.start, of self auto rq]
  obtain c p s0 where r: "reachable self auto rq c p s0"
    and c: "c \<notin> {''end'', ''delivery''}"
    and b: "loop_body self auto c p s0 = Iteration_raised exc s'"
    by auto
  note f = loop_body_Iteration_raised[OF b]
  have t: "try_block self auto (start_state self rq) = Raised exc s'"
    using Loop_raised by (simp add: try_block_def)
  then have "orchestrate self rq auto = except_handler self exc s'"
    by (simp add: orchestrate_def)
  then show ?thesis using raised[OF r _ f(2) t] c f(1) by blast
qed

text \<open>Conversely, a configuration of the run decides how the run ends.\<close>

lemma supervisor_loop_start:
  assumes "reachable self auto rq cur prev s"
  shows "supervisor_loop self auto ''intake'' None (start_state self rq)
         = supervisor_loop self auto cur prev s"
  using supervisor_loop_reachable_eq[OF assms] by simp

lemma orchestrate_paused:
  assumes "reachable self auto rq ''pause_for_approval'' p s" "\<not> auto"
  shows "orchestrate self rq auto = approval_paused s"
  using assms(2) supervisor_loop_start[OF assms(1)]
  by (simp add: orchestrate_def try_block_def supervisor_loop.simps[of self auto "''pause_for_approval''"]
      loop_body_def)



lemma orchestrate_completed:
  assumes "reachable self auto rq ''delivery'' p s" "delivery_block self s = Step_ok s'"
  shows "orchestrate self rq auto = finalize self s'"
  using assms(2) supervisor_loop_start[OF assms(1)]
  by (simp_all add: orchestrate_def try_block_def supervisor_loop.simps[of self auto "''delivery''"])
section \<open>The route of a run\<close>

text \<open>
  The paths that the supervisor can take: \<^verbatim>\<open>intake, planner, execution, qa\<close>, then one
  block per retry, which is \<^verbatim>\<open>execution, qa\<close> when QA sent the run back and
  \<^verbatim>\<open>judge, execution, qa\<close> when the judge did, then \<^verbatim>\<open>judge, delivery\<close>.
\<close>

definition retry_block :: "bool \<Rightarrow> string list" where
  "retry_block after_judge =
     (if after_judge then [''judge'', ''execution'', ''qa''] else [''execution'', ''qa''])"

definition route_upto_qa :: "bool list \<Rightarrow> string list" where
  "route_upto_qa bs = [''intake'', ''planner'', ''execution'', ''qa''] @ concat (map retry_block bs)"

definition retry_path :: "bool list \<Rightarrow> string list" where
  "retry_path bs = route_upto_qa bs @ [''judge'', ''delivery'']"

text \<open>
  Where the loop stands, what \<^verbatim>\<open>route_history\<close> then holds, and the retries taken
  so far.
\<close>

inductive loop_shape :: "string \<Rightarrow> string option \<Rightarrow> string list \<Rightarrow> bool list \<Rightarrow> bool" where
  at_intake: "loop_shape ''intake'' None [] []"
| at_planner: "loop_shape ''planner'' (Some ''intake'') [''intake''] []"
| at_gate: "loop_shape ''pause_for_approval'' (Some ''planner'') [''intake'', ''planner''] []"
| first_execution: "loop_shape ''execution'' (Some ''planner'') [''intake'', ''planner''] []"
| at_qa: "loop_shape ''qa'' (Some ''execution'') (butlast (route_upto_qa bs)) bs"
| at_judge: "loop_shape ''judge'' (Some ''qa'') (route_upto_qa bs) bs"
| retry_after_qa: "loop_shape ''execution'' (Some ''qa'') (route_upto_qa bs) bs"
| retry_after_judge: "loop_shape ''execution'' (Some ''judge'') (route_upto_qa bs @ [''judge'']) bs"
| at_delivery: "loop_shape ''delivery'' (Some ''judge'') (route_upto_qa bs @ [''judge'']) bs"

lemma route_upto_qa_snoc: "route_upto_qa (bs @ [b]) = route_upto_qa bs @ retry_block b"
  by (simp add: route_upto_qa_def)

lemma route_upto_qa_last: "route_upto_qa bs \<noteq> [] \<and> last (route_upto_qa bs) = ''qa''"
  by (induction bs rule: rev_induct) (simp_all add: route_upto_qa_def retry_block_def)

lemma route_upto_qa_butlast_qa: "butlast (route_upto_qa bs) @ [''qa''] = route_upto_qa bs"
  using route_upto_qa_last[of bs] append_butlast_last_id[of "route_upto_qa bs"] by simp

lemma route_upto_qa_butlast_snoc:
  "butlast (route_upto_qa (bs @ [False])) = route_upto_qa bs @ [''execution'']"
  "butlast (route_upto_qa (bs @ [True])) = route_upto_qa bs @ [''judge'', ''execution'']"
  by (simp_all add: route_upto_qa_snoc retry_block_def butlast_append)

lemma route_upto_qa_Nil: "route_upto_qa [] = [''intake'', ''planner'', ''execution'', ''qa'']"
  by (simp add: route_upto_qa_def)

lemma set_route_upto_qa:
  "set (route_upto_qa bs) \<subseteq> {''intake'', ''planner'', ''execution'', ''qa'', ''judge''}"
  by (induction bs rule: rev_induct) (auto simp: route_upto_qa_snoc route_upto_qa_Nil retry_block_def)

text \<open>The invariant of the loop.\<close>

definition loop_inv :: "request \<Rightarrow> string \<Rightarrow> string option \<Rightarrow> WorkflowState \<Rightarrow> bool list \<Rightarrow> bool" where
  "loop_inv rq cur prev s bs =
     (loop_shape cur prev (route_history s) bs
      \<and> int (length bs) = retry_count s
      \<and> (cur = ''execution'' \<and> prev \<noteq> Some ''planner'' \<longrightarrow> retry_gate_fires cur prev s)
      \<and> max_retries s = rq_max_retries rq
      \<and> retry_count s \<le> max 0 (rq_max_retries rq))"

lemma loop_inv_step:
  assumes inv: "loop_inv rq cur prev s bs"
    and cur: "cur \<noteq> ''pause_for_approval''" "cur \<noteq> ''delivery''"
    and rh: "route_history s' = route_history s @ [cur]"
    and rc: "retry_count s' = (if retry_gate_fires cur prev s then retry_count s + 1 else retry_count s)"
    and mr: "max_retries s' = max_retries s"
    and c: "c = determine_next_step cur s'" and p: "p = Some cur"
  shows "\<exists>bs'. loop_inv rq c p s' bs'"
proof -
  note f = p c rc mr rh
  from inv have shape: "loop_shape cur prev (route_history s) bs"
    and len: "int (length bs) = retry_count s"
    and pend: "cur = ''execution'' \<and> prev \<noteq> Some ''planner'' \<longrightarrow> retry_gate_fires cur prev s"
    and mx: "max_retries s = rq_max_retries rq"
    and bound: "retry_count s \<le> max 0 (rq_max_retries rq)"
    by (simp_all add: loop_inv_def)
  have mx': "max_retries s' = rq_max_retries rq" using f(4) mx by simp
  have bound': "retry_count s' \<le> max 0 (rq_max_retries rq)"
    using f(3) bound mx retry_gate_fires_lt[of cur prev s] by (auto split: if_splits)
  have pend': "c = ''execution'' \<and> p \<noteq> Some ''planner'' \<longrightarrow> retry_gate_fires c p s'"
  proof (intro impI, elim conjE)
    assume c: "c = ''execution''" and p: "p \<noteq> Some ''planner''"
    then have "determine_next_step cur s' = ''execution''" "cur \<noteq> ''planner''"
      using f(1,2) by auto
    then have "cur = ''qa'' \<or> cur = ''judge''"
      by (auto simp: determine_next_step_def Let_def split: if_splits)
    from router_retry_gate[OF this \<open>determine_next_step cur s' = ''execution''\<close>]
    show "retry_gate_fires c p s'" using c f(1) by simp
  qed
  from shape show ?thesis
  proof (cases rule: loop_shape.cases)
    case at_intake
    then have "loop_shape c p (route_history s') []"
      using f(1,2,5) by (simp add: determine_next_step_def loop_shape.at_planner)
    moreover have "retry_count s' = 0"
      using f(3) at_intake len by (simp add: retry_gate_fires_def)
    ultimately show ?thesis using mx' bound' pend' by (auto simp: loop_inv_def)
  next
    case at_planner
    then have "loop_shape c p (route_history s') []"
      using f(1,2,5) by (auto simp: determine_next_step_def intro: loop_shape.intros)
    moreover have "retry_count s' = 0"
      using f(3) at_planner len by (simp add: retry_gate_fires_def)
    ultimately show ?thesis using mx' bound' pend' by (auto simp: loop_inv_def)
  next
    case at_gate
    then show ?thesis using cur by simp
  next
    case first_execution
    then have nofire: "\<not> retry_gate_fires cur prev s" by (simp add: retry_gate_fires_def)
    have "route_history s' = butlast (route_upto_qa [])"
      using f(5) first_execution by (simp add: route_upto_qa_Nil)
    then have "loop_shape c p (route_history s') []"
      using f(1,2) first_execution loop_shape.at_qa[of "[]"]
      by (simp add: determine_next_step_def)
    moreover have "retry_count s' = 0"
      using f(3) nofire len first_execution by simp
    ultimately show ?thesis using mx' bound' pend' by (auto simp: loop_inv_def)
  next
    case at_qa
    then have nofire: "\<not> retry_gate_fires cur prev s" by (simp add: retry_gate_fires_def)
    have "route_history s' = route_upto_qa bs"
      using f(5) at_qa by (simp add: route_upto_qa_butlast_qa)
    moreover have "c = ''execution'' \<or> c = ''judge''"
      using f(2) at_qa by (simp add: determine_next_step_def Let_def)
    ultimately have "loop_shape c p (route_history s') bs"
      using f(1) at_qa by (auto intro: loop_shape.intros)
    moreover have "int (length bs) = retry_count s'"
      using f(3) nofire len by simp
    ultimately show ?thesis using mx' bound' pend' by (auto simp: loop_inv_def)
  next
    case at_judge
    then have nofire: "\<not> retry_gate_fires cur prev s" by (simp add: retry_gate_fires_def)
    have "route_history s' = route_upto_qa bs @ [''judge'']"
      using f(5) at_judge by simp
    moreover have "c = ''execution'' \<or> c = ''delivery''"
      using f(2) at_judge by (simp add: determine_next_step_def Let_def)
    ultimately have "loop_shape c p (route_history s') bs"
      using f(1) at_judge by (auto intro: loop_shape.intros)
    moreover have "int (length bs) = retry_count s'"
      using f(3) nofire len by simp
    ultimately show ?thesis using mx' bound' pend' by (auto simp: loop_inv_def)
  next
    case retry_after_qa
    then have fire: "retry_gate_fires cur prev s" using pend by simp
    have "route_history s' = butlast (route_upto_qa (bs @ [False]))"
      using f(5) retry_after_qa by (simp add: route_upto_qa_butlast_snoc)
    then have "loop_shape c p (route_history s') (bs @ [False])"
      using f(1,2) retry_after_qa loop_shape.at_qa[of "bs @ [False]"]
      by (simp add: determine_next_step_def)
    moreover have "int (length (bs @ [False])) = retry_count s'"
      using f(3) fire len by simp
    ultimately show ?thesis using mx' bound' pend' unfolding loop_inv_def by blast
  next
    case retry_after_judge
    then have fire: "retry_gate_fires cur prev s" using pend by simp
    have "route_history s' = butlast (route_upto_qa (bs @ [True]))"
      using f(5) retry_after_judge by (simp add: route_upto_qa_butlast_snoc)
    then have "loop_shape c p (route_history s') (bs @ [True])"
      using f(1,2) retry_after_judge loop_shape.at_qa[of "bs @ [True]"]
      by (simp add: determine_next_step_def)
    moreover have "int (length (bs @ [True])) = retry_count s'"
      using f(3) fire len by simp
    ultimately show ?thesis using mx' bound' pend' unfolding loop_inv_def by blast
  next
    case at_delivery
    then show ?thesis using cur by simp
  qed
qed

lemma reachable_loop_inv:
  assumes "reachable self auto rq cur prev s"
  shows "\<exists>bs. loop_inv rq cur prev s bs"
  using assms
proof (induction rule: reachable.induct)
  case start
  have "loop_inv rq ''intake'' None (start_state self rq) []"
    by (simp add: loop_inv_def loop_shape.at_intake)
  then show ?case ..
next
  case (iterate cur prev s c p s')
  from iterate.IH obtain bs where inv: "loop_inv rq cur prev s bs" ..
  show ?case
  proof (cases "cur = ''pause_for_approval''")
    case True
    note f = loop_body_Continue_pause[OF iterate.hyps(3)[unfolded True]]
    from inv True have "prev = Some ''planner''" "route_history s = [''intake'', ''planner'']"
      "bs = []"
      by (auto simp: loop_inv_def elim: loop_shape.cases)
    then have "loop_inv rq c p s' []"
      using inv f by (simp add: loop_inv_def loop_shape.first_execution)
    then show ?thesis ..
  next
    case False
    note f = loop_body_Continue_fields[OF False iterate.hyps(3)]
    from loop_inv_step[OF inv False _ f(5) f(3) f(4) f(2) f(1)] iterate.hyps(2)
    show ?thesis by simp
  qed
qed

lemma loop_inv_prefix:
  assumes "loop_inv rq cur prev s bs"
  shows "prefix (route_history s) (retry_path bs)"
proof -
  from assms have "loop_shape cur prev (route_history s) bs" by (simp add: loop_inv_def)
  then show ?thesis
  proof (cases rule: loop_shape.cases)
    case at_qa
    have "prefix (butlast (route_upto_qa bs)) (route_upto_qa bs)" by (rule prefixeq_butlast)
    then show ?thesis using at_qa by (simp add: retry_path_def prefix_prefix)
  qed (simp_all add: retry_path_def route_upto_qa_Nil)
qed

text \<open>The states of a run after a step was entered: the invariant one append later.\<close>

lemma loop_inv_entered:
  assumes inv: "loop_inv rq cur prev s bs"
    and cur: "cur \<noteq> ''pause_for_approval''" "cur \<noteq> ''delivery''"
    and cf: "control_fields s' = control_fields (enter_step cur prev s)"
  shows "\<exists>bs'. int (length bs') = retry_count s' \<and> prefix (route_history s') (retry_path bs')
           \<and> max_retries s' = rq_max_retries rq \<and> retry_count s' \<le> max 0 (rq_max_retries rq)"
proof -
  note g = control_fieldsD[OF cf]
  have "\<exists>bs'. loop_inv rq (determine_next_step cur s') (Some cur) s' bs'"
    by (rule loop_inv_step[OF inv cur]) (simp_all add: g)
  then obtain bs' where inv': "loop_inv rq (determine_next_step cur s') (Some cur) s' bs'" ..
  from loop_inv_prefix[OF inv'] inv' show ?thesis by (auto simp: loop_inv_def)
qed

lemma loop_inv_delivered:
  assumes inv: "loop_inv rq ''delivery'' prev s bs"
    and cf: "control_fields s' = control_fields (delivery_entry self s)"
  shows "int (length bs) = retry_count s'" "route_history s' = retry_path bs"
    "max_retries s' = rq_max_retries rq" "retry_count s' \<le> max 0 (rq_max_retries rq)"
proof -
  note g = control_fieldsD[OF cf]
  from inv have "route_history s = route_upto_qa bs @ [''judge'']"
    by (auto simp: loop_inv_def elim: loop_shape.cases)
  then show "route_history s' = retry_path bs" using g by (simp add: retry_path_def)
  show "int (length bs) = retry_count s'" "max_retries s' = rq_max_retries rq"
    "retry_count s' \<le> max 0 (rq_max_retries rq)"
    using inv g by (simp_all add: loop_inv_def)
qed

lemma delivery_block_control:
  "delivery_block self s = Step_ok s' \<Longrightarrow> control_fields s' = control_fields (delivery_entry self s)"
  "delivery_block self s = Step_raised exc s' \<Longrightarrow> control_fields s' = control_fields (delivery_entry self s)"
  by (simp_all add: delivery_block_def execute_step_ok_control execute_step_raised_control)

lemma control_fields_finalize:
  "retry_count (finalize self s) = retry_count s" "max_retries (finalize self s) = max_retries s"
  "route_history (finalize self s) = route_history s"
  by simp_all

text \<open>The route and the retry counter of the state that \<open>orchestrate\<close> returns.\<close>

lemma orchestrate_route:
  "\<exists>bs. int (length bs) = retry_count (orchestrate self rq auto)
        \<and> prefix (route_history (orchestrate self rq auto)) (retry_path bs)
        \<and> max_retries (orchestrate self rq auto) = rq_max_retries rq
        \<and> retry_count (orchestrate self rq auto) \<le> max 0 (rq_max_retries rq)"
proof (cases rule: orchestrate_cases[of self auto rq])
  case (paused p s)
  from reachable_loop_inv[OF paused(1)] obtain bs where inv: "loop_inv rq ''pause_for_approval'' p s bs" ..
  from loop_inv_prefix[OF inv] inv show ?thesis
    using paused(3) by (auto simp: loop_inv_def)
next
  case (raised c p s exc s')
  from reachable_loop_inv[OF raised(1)] obtain bs where inv: "loop_inv rq c p s bs" ..
  from loop_inv_entered[OF inv _ _ execute_step_raised_control[OF raised(3)]] raised(2)
  show ?thesis using raised(5) by simp
next
  case (delivery_raised p s exc s')
  from reachable_loop_inv[OF delivery_raised(1)] obtain bs where inv: "loop_inv rq ''delivery'' p s bs" ..
  from loop_inv_delivered[OF inv delivery_block_control(2)[OF delivery_raised(2)]]
  show ?thesis using delivery_raised(4) by auto
next
  case (completed p s s')
  from reachable_loop_inv[OF completed(1)] obtain bs where inv: "loop_inv rq ''delivery'' p s bs" ..
  from loop_inv_delivered[OF inv delivery_block_control(1)[OF completed(2)]]
  show ?thesis using completed(3) by auto
qed
lemma set_retry_path:
  "set (retry_path bs) \<subseteq> {''intake'', ''planner'', ''execution'', ''qa'', ''judge'', ''delivery''}"
  using set_route_upto_qa[of bs] by (auto simp: retry_path_def)

lemma prefix_retry_path_no_pause:
  assumes "prefix rh (retry_path bs)"
  shows "''pause_for_approval'' \<notin> set rh"
proof
  assume "''pause_for_approval'' \<in> set rh"
  then have "''pause_for_approval'' \<in> set (retry_path bs)"
    using set_mono_prefix[OF assms] by blast
  then show False using set_retry_path[of bs] by auto
qed

section \<open>Concrete workers\<close>

text \<open>
  A worker that returns the same result on every call and records no warning, and a
  registry of the six steps of \<^verbatim>\<open>WorkflowOrchestrator\<close> built from such workers: the
  planner asks for no approval, QA passes and the judge accepts. The SLA is never
  breached and the clock shows the number of events so far.
\<close>

definition constant_worker :: "pydict \<Rightarrow> worker" where
  "constant_worker result = (\<lambda>state. ([], Returns result))"


definition demo_agent :: MasterAgent where
  "demo_agent =
     \<lparr> worker_agents =
         [''intake'' \<mapsto> constant_worker [(''word_count'', POther ''3'' True)],
          ''planner'' \<mapsto> constant_worker [(''requires_approval'', PBool False),
                                           (''approval_reason'', PNone)],
          ''execution'' \<mapsto> constant_worker [(''translation'', PStr ''[es] ACUERDO''),
                                             (''method'', PStr ''mock'')],
          ''qa'' \<mapsto> constant_worker [(''status'', PQAStatus QA_PASS)],
          ''judge'' \<mapsto> constant_worker [(''action'', PStr ''accept'')],
          ''delivery'' \<mapsto> constant_worker [(''status'', PStr ''completed'')]],
       is_breached = (\<lambda>state. False),
       utcnow = (\<lambda>state. length (events state)) \<rparr>"

section \<open>The approval gate is never recorded\<close>

text \<open>
  C10. For every registry of workers, every request and either approval policy, the step
  name \<^verbatim>\<open>pause_for_approval\<close> is in \<^verbatim>\<open>route_history\<close> neither at any head of the
  loop nor in the state that \<^verbatim>\<open>orchestrate\<close> returns.
\<close>

theorem pause_for_approval_never_recorded:
  "(reachable self auto rq cur prev s \<longrightarrow> ''pause_for_approval'' \<notin> set (route_history s))
   \<and> ''pause_for_approval'' \<notin> set (route_history (orchestrate self rq auto))"
proof
  show "reachable self auto rq cur prev s \<longrightarrow> ''pause_for_approval'' \<notin> set (route_history s)"
  proof
    assume "reachable self auto rq cur prev s"
    from reachable_loop_inv[OF this] obtain bs where "loop_inv rq cur prev s bs" ..
    from prefix_retry_path_no_pause[OF loop_inv_prefix[OF this]]
    show "''pause_for_approval'' \<notin> set (route_history s)" .
  qed
  from orchestrate_route[of self rq auto] obtain bs
    where "prefix (route_history (orchestrate self rq auto)) (retry_path bs)" by blast
  then show "''pause_for_approval'' \<notin> set (route_history (orchestrate self rq auto))"
    by (rule prefix_retry_path_no_pause)
qed

theorem pause_for_approval_never_recorded_witness:
  "reachable demo_agent False sample_request ''intake'' None (start_state demo_agent sample_request)
   \<and> ''pause_for_approval'' \<notin> set (route_history (start_state demo_agent sample_request))
   \<and> ''pause_for_approval'' \<notin> set (route_history (orchestrate demo_agent sample_request False))"
  using pause_for_approval_never_recorded
    [of demo_agent False sample_request "''intake''" None "start_state demo_agent sample_request"]
    reachable.start[of demo_agent False sample_request]
  by simp

section \<open>The retry counter\<close>










section \<open>The route is a prefix of a path of the pipeline\<close>


section \<open>Following a run step by step\<close>

lemmas step_started_control [simp] = control_fieldsD[OF control_fields_step_started]
lemmas step_failed_control [simp] = control_fieldsD[OF control_fields_step_failed]
lemmas step_completed_control [simp] = control_fieldsD[OF control_fields_step_completed]
lemmas add_warnings_control [simp] = control_fieldsD[OF control_fields_add_warnings]
lemmas sla_check_control [simp] = control_fieldsD[OF control_fields_sla_check]

lemma add_warnings_Nil [simp]: "add_warnings [] s = s"
  by (simp add: add_warnings_def)

lemma iteration_ok:
  assumes r: "reachable self auto rq cur prev s"
    and cur: "cur \<notin> {''end'', ''delivery'', ''pause_for_approval''}"
    and ok: "execute_step self cur (enter_step cur prev s) = Step_ok t"
  shows "reachable self auto rq (determine_next_step cur (sla_check self t)) (Some cur)
           (sla_check self t)"
proof -
  have "loop_body self auto cur prev s
        = Continue (determine_next_step cur (sla_check self t)) (Some cur) (sla_check self t)"
    using cur ok by (simp add: loop_body_def Let_def)
  from reachable.iterate[OF r _ this] cur show ?thesis by simp
qed

lemma iteration_auto_approved:
  assumes r: "reachable self auto rq ''pause_for_approval'' prev s" and auto: "auto"
  shows "reachable self auto rq ''execution'' prev (approval_auto_approved s)"
proof -
  have "loop_body self auto ''pause_for_approval'' prev s
        = Continue ''execution'' prev (approval_auto_approved s)"
    using auto by (simp add: loop_body_def)
  from reachable.iterate[OF r _ this] show ?thesis by simp
qed

text \<open>The fields of the state with which an iteration ends, from the result of its step.\<close>

lemma iteration_fields:
  assumes ok: "execute_step self cur (enter_step cur prev s) = Step_ok t"
  defines "s' \<equiv> sla_check self t"
  shows "retry_count s' = (if retry_gate_fires cur prev s then retry_count s + 1 else retry_count s)"
    "max_retries s' = max_retries s"
    "route_history s' = route_history s @ [cur]"
    "status s' = status s"
    "run_status s' = run_status s"
    "run_status_assignments s' = run_status_assignments s"
    "approval_granted s' = approval_granted s"
    "errors s' = errors s"
    "end_time s' = end_time s"
    "requires_approval s' = requires_approval t"
    "qa_result s' = qa_result t"
    "judge_result s' = judge_result t"
    "pause_reason s' = pause_reason t"
    "cur \<noteq> ''planner'' \<Longrightarrow> requires_approval s' = requires_approval s"
    "cur \<noteq> ''qa'' \<Longrightarrow> qa_result s' = qa_result s"
    "cur \<noteq> ''judge'' \<Longrightarrow> judge_result s' = judge_result s"
    "step_status s' = (step_status s)(cur \<mapsto> ''completed'')"
proof -
  note g = control_fieldsD[OF execute_step_ok_control[OF ok]]
  show "retry_count s' = (if retry_gate_fires cur prev s then retry_count s + 1 else retry_count s)"
    "max_retries s' = max_retries s"
    "route_history s' = route_history s @ [cur]"
    "status s' = status s"
    "run_status s' = run_status s"
    "run_status_assignments s' = run_status_assignments s"
    "approval_granted s' = approval_granted s"
    "errors s' = errors s"
    "end_time s' = end_time s"
    using g by (simp_all add: s'_def)
  show "requires_approval s' = requires_approval t" "qa_result s' = qa_result t"
    "judge_result s' = judge_result t" "pause_reason s' = pause_reason t"
    by (simp_all add: s'_def)
  show "cur \<noteq> ''planner'' \<Longrightarrow> requires_approval s' = requires_approval s"
    "cur \<noteq> ''qa'' \<Longrightarrow> qa_result s' = qa_result s"
    "cur \<noteq> ''judge'' \<Longrightarrow> judge_result s' = judge_result s"
    "step_status s' = (step_status s)(cur \<mapsto> ''completed'')"
    using execute_step_ok_fields[OF ok] by (simp_all add: s'_def)
qed

text \<open>Simple invariants of the loop: the status and the history of the label.\<close>

lemma reachable_in_progress:
  assumes "reachable self auto rq cur prev s"
  shows "status s = IN_PROGRESS \<and> run_status s = ''in_progress'' \<and> errors s = []
         \<and> (\<exists>k. run_status_assignments s = replicate k ''in_progress'')"
  using assms
proof (induction rule: reachable.induct)
  case start
  have one: "run_status_assignments (start_state self rq) = replicate 1 ''in_progress''" by simp
  have "\<exists>k. run_status_assignments (start_state self rq) = replicate k ''in_progress''"
    by (rule exI) (rule one)
  moreover have "status (start_state self rq) = IN_PROGRESS"
    "run_status (start_state self rq) = ''in_progress''" "errors (start_state self rq) = []"
    by simp_all
  ultimately show ?case by simp
next
  case (iterate cur prev s c p s')
  from iterate.IH have st: "status s = IN_PROGRESS" "run_status s = ''in_progress''" "errors s = []"
    by simp_all
  from iterate.IH have "\<exists>k. run_status_assignments s = replicate k ''in_progress''" by simp
  then obtain k where k: "run_status_assignments s = replicate k ''in_progress''"
    by (rule exE)
  show ?case
  proof (cases "cur = ''pause_for_approval''")
    case True
    note f = loop_body_Continue_pause[OF iterate.hyps(3)[unfolded True]]
    have k': "run_status_assignments s' = replicate (Suc k) ''in_progress''"
      unfolding f(4) approval_auto_approved_fields k by (simp add: replicate_append_same)
    have "\<exists>k. run_status_assignments s' = replicate k ''in_progress''"
      by (rule exI) (rule k')
    moreover have "status s' = IN_PROGRESS" "run_status s' = ''in_progress''" "errors s' = []"
      unfolding f(4) approval_auto_approved_fields by (simp_all add: st)
    ultimately show ?thesis by simp
  next
    case False
    note f = loop_body_Continue_fields[OF False iterate.hyps(3)]
    have k': "run_status_assignments s' = replicate k ''in_progress''"
      using f(8) k by simp
    have "\<exists>k. run_status_assignments s' = replicate k ''in_progress''"
      by (rule exI) (rule k')
    moreover have "status s' = IN_PROGRESS" "run_status s' = ''in_progress''" "errors s' = []"
      using f(6,7,10) st by simp_all
    ultimately show ?thesis by simp
  qed
qed

lemma reachable_gate_unapproved_aux:
  assumes "reachable self auto rq cur prev s"
  shows "cur = ''pause_for_approval'' \<longrightarrow>
         approval_granted s = None \<and> py_truthy (requires_approval s) \<and> prev = Some ''planner''"
  using assms
proof (induction rule: reachable.induct)
  case start
  show ?case by simp
next
  case (iterate cur prev s c p s')
  show ?case
  proof (cases "cur = ''pause_for_approval''")
    case True
    from loop_body_Continue_pause(2)[OF iterate.hyps(3)[unfolded True]] show ?thesis by simp
  next
    case False
    note f = loop_body_Continue_fields[OF False iterate.hyps(3)]
    show ?thesis
    proof
      assume "c = ''pause_for_approval''"
      then have d: "determine_next_step cur s' = ''pause_for_approval''" using f(2) by simp
      then have "cur = ''planner''"
        by (auto simp: determine_next_step_def Let_def split: if_splits)
      with d f(1) show "approval_granted s' = None \<and> py_truthy (requires_approval s')
                       \<and> p = Some ''planner''"
        by (auto simp: determine_next_step_def split: if_splits)
    qed
  qed
qed

lemma reachable_gate_unapproved:
  assumes "reachable self auto rq ''pause_for_approval'' prev s"
  shows "approval_granted s = None" "py_truthy (requires_approval s)" "prev = Some ''planner''"
  using reachable_gate_unapproved_aux[OF assms] by simp_all

text \<open>The forced-failure flag of the request is never written.\<close>

lemma force_flag_kept [simp]:
  "force_qa_fail_once (emit_event s a b c d) = force_qa_fail_once s"
  "force_qa_fail_once (set_step_status a b s) = force_qa_fail_once s"
  "force_qa_fail_once (add_warnings ws s) = force_qa_fail_once s"
  "force_qa_fail_once (add_warning m s) = force_qa_fail_once s"
  "force_qa_fail_once (refresh_delivery_metadata s) = force_qa_fail_once s"
  "force_qa_fail_once (merge_result s a r) = force_qa_fail_once s"
  by (simp_all add: emit_event_def add_event_def set_step_status_def add_warnings_def
      add_warning_def refresh_delivery_metadata_def merge_result_def Let_def)

lemma force_flag_kept_blocks [simp]:
  "force_qa_fail_once (step_started a s) = force_qa_fail_once s"
  "force_qa_fail_once (step_completed a r s) = force_qa_fail_once s"
  "force_qa_fail_once (sla_check self s) = force_qa_fail_once s"
  "force_qa_fail_once (retry_gate cur prev s) = force_qa_fail_once s"
  "force_qa_fail_once (enter_step cur prev s) = force_qa_fail_once s"
  "force_qa_fail_once (approval_auto_approved s) = force_qa_fail_once s"
  "force_qa_fail_once (start_state self rq) = rq_force_qa_fail_once rq"
  by (simp_all add: step_started_def step_completed_def sla_check_def retry_gate_def
      enter_step_def approval_auto_approved_def start_state_def initial_state_def
      assign_run_status_def Let_def)

lemma reachable_force_flag:
  assumes "reachable self auto rq cur prev s"
  shows "force_qa_fail_once s = rq_force_qa_fail_once rq"
  using assms
proof (induction rule: reachable.induct)
  case start
  show ?case by simp
next
  case (iterate cur prev s c p s')
  show ?case
  proof (cases "cur = ''pause_for_approval''")
    case True
    from loop_body_Continue_pause(4)[OF iterate.hyps(3)[unfolded True]] iterate.IH
    show ?thesis by simp
  next
    case False
    from loop_body_Continue_step[OF False iterate.hyps(3)]
    obtain t where t: "execute_step self cur (enter_step cur prev s) = Step_ok t"
      and s': "s' = sla_check self t" by blast
    from t have "force_qa_fail_once t = force_qa_fail_once s"
      by (auto elim!: execute_step_okE)
    then show ?thesis using s' iterate.IH by simp
  qed
qed
section \<open>Failures end in a failed state\<close>






section \<open>Pausing for approval\<close>

lemma orchestrate_status:
  "status (orchestrate self rq auto) = PAUSED \<or> status (orchestrate self rq auto) = FAILED
   \<or> status (orchestrate self rq auto) = COMPLETED"
  by (cases rule: orchestrate_cases[of self auto rq]) simp_all

lemma orchestrate_paused_iff:
  "status (orchestrate self rq auto) = PAUSED
   \<longleftrightarrow> \<not> auto \<and> (\<exists>s. reachable self auto rq ''pause_for_approval'' (Some ''planner'') s)"
proof
  assume p: "status (orchestrate self rq auto) = PAUSED"
  show "\<not> auto \<and> (\<exists>s. reachable self auto rq ''pause_for_approval'' (Some ''planner'') s)"
  proof (cases rule: orchestrate_cases[of self auto rq])
    case (paused p s)
    from reachable_gate_unapproved(3)[OF paused(1)] paused(1,2)
    show ?thesis by (auto simp del: not_Some_eq)
  qed (use p in simp_all)
next
  assume "\<not> auto \<and> (\<exists>s. reachable self auto rq ''pause_for_approval'' (Some ''planner'') s)"
  then obtain s where "\<not> auto" "reachable self auto rq ''pause_for_approval'' (Some ''planner'') s"
    by (elim conjE exE)
  from orchestrate_paused[OF this(2,1)] show "status (orchestrate self rq auto) = PAUSED"
    by simp
qed

lemma orchestrate_paused_fields:
  assumes "status (orchestrate self rq auto) = PAUSED"
  shows "pause_reason (orchestrate self rq auto) = PStr ''Awaiting human approval''"
    "approval_granted (orchestrate self rq auto) = None"
    "run_status (orchestrate self rq auto) = ''paused''"
proof -
  have "pause_reason (orchestrate self rq auto) = PStr ''Awaiting human approval''
        \<and> approval_granted (orchestrate self rq auto) = None
        \<and> run_status (orchestrate self rq auto) = ''paused''"
  proof (cases rule: orchestrate_cases[of self auto rq])
    case (paused p s)
    from reachable_gate_unapproved(1)[OF paused(1)] paused(3) show ?thesis by simp
  qed (use assms in simp_all)
  then show "pause_reason (orchestrate self rq auto) = PStr ''Awaiting human approval''"
    "approval_granted (orchestrate self rq auto) = None"
    "run_status (orchestrate self rq auto) = ''paused''"
    by simp_all
qed

text \<open>
  C8, amended. For every registry of workers, request and approval policy: the status
  is not paused at any head of the loop, and when the state that \<open>orchestrate\<close>
  returns has \<^verbatim>\<open>status = paused\<close>, its \<^verbatim>\<open>pause_reason\<close> is set (to
  \<^verbatim>\<open>"Awaiting human approval"\<close>) and its \<^verbatim>\<open>approval_granted\<close> is None. (The converse
  fails: see the counterexample.)
\<close>

theorem paused_implies_reason_and_unapproved:
  "(reachable self auto rq cur prev s \<longrightarrow> status s \<noteq> PAUSED)
   \<and> (status (orchestrate self rq auto) = PAUSED \<longrightarrow>
        pause_reason (orchestrate self rq auto) = PStr ''Awaiting human approval''
        \<and> pause_reason (orchestrate self rq auto) \<noteq> PNone
        \<and> approval_granted (orchestrate self rq auto) = None)"
proof (intro conjI impI)
  assume "reachable self auto rq cur prev s"
  from reachable_in_progress[OF this] show "status s \<noteq> PAUSED" by simp
next
  assume p: "status (orchestrate self rq auto) = PAUSED"
  from orchestrate_paused_fields[OF p]
  show "pause_reason (orchestrate self rq auto) = PStr ''Awaiting human approval''"
    "pause_reason (orchestrate self rq auto) \<noteq> PNone"
    "approval_granted (orchestrate self rq auto) = None"
    by simp_all
qed

text \<open>
  The first two iterations of a run whose intake and planner steps succeed and whose
  planner asks for approval: the loop then stands at the approval gate.
\<close>

lemma run_reaches_gate:
  assumes e1: "execute_step self ''intake'' (enter_step ''intake'' None (start_state self rq))
               = Step_ok t1"
    and e2: "execute_step self ''planner''
               (enter_step ''planner'' (Some ''intake'') (sla_check self t1)) = Step_ok t2"
    and ap: "py_truthy (requires_approval t2)"
  shows "reachable self auto rq ''pause_for_approval'' (Some ''planner'') (sla_check self t2)"
    "route_history (sla_check self t2) = [''intake'', ''planner'']"
    "approval_granted (sla_check self t2) = None"
    "pause_reason (sla_check self t2) = pause_reason t2"
    "step_status (sla_check self t2)
       = (step_status (start_state self rq))(''intake'' \<mapsto> ''completed'', ''planner'' \<mapsto> ''completed'')"
proof -
  have r1: "reachable self auto rq ''planner'' (Some ''intake'') (sla_check self t1)"
    using iteration_ok[OF reachable.start _ e1, where auto = auto]
    by (simp add: determine_next_step_def)
  note f1 = iteration_fields[OF e1]
  note f2 = iteration_fields[OF e2]
  have ag: "approval_granted (sla_check self t2) = None"
    using f2(7) f1(7) by simp
  have "determine_next_step ''planner'' (sla_check self t2) = ''pause_for_approval''"
    using ap ag f2(10) by (simp add: determine_next_step_def)
  then show "reachable self auto rq ''pause_for_approval'' (Some ''planner'') (sla_check self t2)"
    using iteration_ok[OF r1 _ e2] by simp
  show "route_history (sla_check self t2) = [''intake'', ''planner'']"
    using f2(3) f1(3) by simp
  show "approval_granted (sla_check self t2) = None" by (fact ag)
  show "pause_reason (sla_check self t2) = pause_reason t2" by (fact f2(13))
  show "step_status (sla_check self t2)
       = (step_status (start_state self rq))(''intake'' \<mapsto> ''completed'', ''planner'' \<mapsto> ''completed'')"
    using f2(17) f1(17) by simp
qed

text \<open>
  C6. When the intake step and the planner step succeed, the planner's result asks for
  approval (\<^verbatim>\<open>state.requires_approval\<close>, which the merge fills from the result, is
  true) and auto-approve is off, \<open>orchestrate\<close> returns right after the planner step:
  \<^verbatim>\<open>route_history\<close> is \<^verbatim>\<open>[intake, planner]\<close>, \<^verbatim>\<open>status\<close> is paused,
  \<^verbatim>\<open>pause_reason\<close> is set, and the execution step, which the registry holds, still has
  \<^verbatim>\<open>step_status["execution"] = "pending"\<close>.
\<close>

theorem approval_pause_before_execution:
  assumes "execute_step self ''intake'' (enter_step ''intake'' None (start_state self rq))
           = Step_ok t1"
    and "execute_step self ''planner''
           (enter_step ''planner'' (Some ''intake'') (sla_check self t1)) = Step_ok t2"
    and "py_truthy (requires_approval t2)"
    and "''execution'' \<in> dom (worker_agents self)"
  shows "status (orchestrate self rq False) = PAUSED
         \<and> pause_reason (orchestrate self rq False) \<noteq> PNone
         \<and> step_status (orchestrate self rq False) ''execution'' = Some ''pending''
         \<and> route_history (orchestrate self rq False) = [''intake'', ''planner'']
         \<and> ''execution'' \<notin> set (route_history (orchestrate self rq False))"
proof -
  note g = run_reaches_gate[OF assms(1,2,3)]
  have "orchestrate self rq False = approval_paused (sla_check self t2)"
    using orchestrate_paused[where auto = False, OF g(1)] by simp
  then show ?thesis using g(2,5) assms(4) by simp
qed

text \<open>
  The registry of \<open>demo_agent\<close> with the planner's answer for a long document: approval
  is required, with the reason the planner gives.
\<close>

definition gated_agent :: MasterAgent where
  "gated_agent =
     demo_agent\<lparr>worker_agents :=
       (worker_agents demo_agent)(''planner'' \<mapsto>
          constant_worker [(''requires_approval'', PBool True),
                           (''approval_reason'', PStr ''Estimated runtime exceeds approval threshold.'')])\<rparr>"

definition gated_intake_state :: WorkflowState where
  "gated_intake_state =
     step_completed ''intake'' [(''word_count'', POther ''3'' True)]
       (step_started ''intake'' (enter_step ''intake'' None (start_state gated_agent sample_request)))"

definition gated_planner_state :: WorkflowState where
  "gated_planner_state =
     step_completed ''planner''
       [(''requires_approval'', PBool True),
        (''approval_reason'', PStr ''Estimated runtime exceeds approval threshold.'')]
       (step_started ''planner''
          (enter_step ''planner'' (Some ''intake'') (sla_check gated_agent gated_intake_state)))"

lemma gated_agent_steps:
  "execute_step gated_agent ''intake'' (enter_step ''intake'' None (start_state gated_agent sample_request))
   = Step_ok gated_intake_state"
  "execute_step gated_agent ''planner''
     (enter_step ''planner'' (Some ''intake'') (sla_check gated_agent gated_intake_state))
   = Step_ok gated_planner_state"
  "py_truthy (requires_approval gated_planner_state)"
  "pause_reason gated_planner_state = PStr ''Estimated runtime exceeds approval threshold.''"
  "''execution'' \<in> dom (worker_agents gated_agent)"
proof -
  have wi: "worker_agents gated_agent ''intake''
            = Some (constant_worker [(''word_count'', POther ''3'' True)])"
    by (simp add: gated_agent_def demo_agent_def)
  have wp: "worker_agents gated_agent ''planner''
            = Some (constant_worker [(''requires_approval'', PBool True),
                 (''approval_reason'', PStr ''Estimated runtime exceeds approval threshold.'')])"
    by (simp add: gated_agent_def)
  show "execute_step gated_agent ''intake''
          (enter_step ''intake'' None (start_state gated_agent sample_request))
        = Step_ok gated_intake_state"
    by (simp add: execute_step_returns[OF wi] constant_worker_def gated_intake_state_def)
  show "execute_step gated_agent ''planner''
          (enter_step ''planner'' (Some ''intake'') (sla_check gated_agent gated_intake_state))
        = Step_ok gated_planner_state"
    by (simp add: execute_step_returns[OF wp] constant_worker_def gated_planner_state_def)
  show "py_truthy (requires_approval gated_planner_state)"
    by (simp add: gated_planner_state_def dict_get_def)
  show "pause_reason gated_planner_state = PStr ''Estimated runtime exceeds approval threshold.''"
    by (simp add: gated_planner_state_def dict_get_def)
  show "''execution'' \<in> dom (worker_agents gated_agent)"
    by (simp add: gated_agent_def demo_agent_def dom_def)
qed

theorem approval_pause_before_execution_witness:
  "status (orchestrate gated_agent sample_request False) = PAUSED
   \<and> pause_reason (orchestrate gated_agent sample_request False) \<noteq> PNone
   \<and> step_status (orchestrate gated_agent sample_request False) ''execution'' = Some ''pending''
   \<and> route_history (orchestrate gated_agent sample_request False) = [''intake'', ''planner'']
   \<and> ''execution'' \<notin> set (route_history (orchestrate gated_agent sample_request False))"
  by (rule approval_pause_before_execution[OF gated_agent_steps(1,2,3,5)])

theorem paused_implies_reason_and_unapproved_witness:
  "reachable gated_agent False sample_request ''intake'' None (start_state gated_agent sample_request)
   \<and> status (start_state gated_agent sample_request) \<noteq> PAUSED
   \<and> status (orchestrate gated_agent sample_request False) = PAUSED
   \<and> pause_reason (orchestrate gated_agent sample_request False) = PStr ''Awaiting human approval''
   \<and> approval_granted (orchestrate gated_agent sample_request False) = None"
proof -
  have p: "status (orchestrate gated_agent sample_request False) = PAUSED"
    using orchestrate_paused[where auto = False, OF run_reaches_gate(1)[OF gated_agent_steps(1,2,3)]]
    by simp
  from paused_implies_reason_and_unapproved
    [of gated_agent False sample_request "''intake''" None
        "start_state gated_agent sample_request"]
    reachable.start[of gated_agent False sample_request] p
  show ?thesis by simp
qed

text \<open>
  C8 as stated fails at the head of the loop that follows the planner step: the merge of
  the planner's result has set \<^verbatim>\<open>pause_reason\<close> from \<^verbatim>\<open>approval_reason\<close>,
  \<^verbatim>\<open>approval_granted\<close> is None, and the status is still in_progress.
\<close>

theorem pause_reason_set_while_in_progress_counterexample:
  "reachable gated_agent False sample_request ''pause_for_approval'' (Some ''planner'')
     (sla_check gated_agent gated_planner_state)
   \<and> status (sla_check gated_agent gated_planner_state) = IN_PROGRESS
   \<and> pause_reason (sla_check gated_agent gated_planner_state)
       = PStr ''Estimated runtime exceeds approval threshold.''
   \<and> approval_granted (sla_check gated_agent gated_planner_state) = None
   \<and> \<not> (status (sla_check gated_agent gated_planner_state) = PAUSED
          \<longleftrightarrow> pause_reason (sla_check gated_agent gated_planner_state) \<noteq> PNone
              \<and> approval_granted (sla_check gated_agent gated_planner_state) = None)"
proof -
  note g = run_reaches_gate[OF gated_agent_steps(1,2,3)]
  from reachable_in_progress[OF g(1)]
  have "status (sla_check gated_agent gated_planner_state) = IN_PROGRESS" by simp
  then show ?thesis using g(1,3,4) gated_agent_steps(4) by simp
qed
section \<open>The history of the run-status label\<close>

lemma warnings_step_completed_delivery:
  "warnings (step_completed ''delivery'' r s) = warnings s"
  by (simp add: step_completed_def Let_def merge_result_def)

lemma foldl_add_msg_nonempty: "xs \<noteq> [] \<Longrightarrow> foldl add_msg xs ws \<noteq> []"
  by (induction ws arbitrary: xs) (simp_all add: add_msg_def)

text \<open>
  The label derived after the delivery step against the one derived before it: only a
  warning that the delivery worker recorded can make them differ.
\<close>

lemma label_after_delivery:
  assumes ok: "delivery_block self s = Step_ok s'"
  shows "derive_run_status (s'\<lparr>status := COMPLETED\<rparr>) = derive_run_status (s\<lparr>status := COMPLETED\<rparr>)
         \<or> (derive_run_status (s\<lparr>status := COMPLETED\<rparr>) = ''completed''
             \<and> derive_run_status (s'\<lparr>status := COMPLETED\<rparr>) = ''completed_with_warnings'')"
  using ok[unfolded delivery_block_def]
proof (rule execute_step_okE)
  fix w r
  assume s': "s' = step_completed ''delivery'' r
               (add_warnings (fst (w (step_started ''delivery'' (delivery_entry self s))))
                  (step_started ''delivery'' (delivery_entry self s)))"
  have eq: "errors s' = errors s" "retry_count s' = retry_count s" "qa_result s' = qa_result s"
    "judge_result s' = judge_result s"
    by (simp_all add: s')
  have "warnings s' = foldl add_msg (warnings s)
                        (fst (w (step_started ''delivery'' (delivery_entry self s))))"
    by (simp add: s' warnings_step_completed_delivery add_warnings_def)
  then have w: "warnings s \<noteq> [] \<Longrightarrow> warnings s' \<noteq> []"
    by (simp add: foldl_add_msg_nonempty)
  show ?thesis
    using eq w by (auto simp: derive_run_status_def qa_failed_def Let_def)
qed

lemma label_completed:
  "derive_run_status (s\<lparr>status := COMPLETED\<rparr>) = ''completed''
   \<or> derive_run_status (s\<lparr>status := COMPLETED\<rparr>) = ''completed_with_warnings''"
  by (rule derive_run_status_completed) simp

text \<open>How the label was assigned in the state that \<open>orchestrate\<close> returns.\<close>

lemma orchestrate_completed_label:
  assumes "status (orchestrate self rq auto) = COMPLETED"
  shows "\<exists>k first.
           run_status_assignments (orchestrate self rq auto)
             = replicate k ''in_progress'' @ [first, run_status (orchestrate self rq auto)]
           \<and> (first = run_status (orchestrate self rq auto)
                \<or> (first = ''completed''
                    \<and> run_status (orchestrate self rq auto) = ''completed_with_warnings''))
           \<and> (run_status (orchestrate self rq auto) = ''completed''
                \<or> run_status (orchestrate self rq auto) = ''completed_with_warnings'')"
proof (cases rule: orchestrate_cases[of self auto rq])
  case (completed p s s')
  from reachable_in_progress[OF completed(1)]
  have "\<exists>k. run_status_assignments s = replicate k ''in_progress''" by simp
  then obtain k where k: "run_status_assignments s = replicate k ''in_progress''" by (rule exE)
  note g = control_fieldsD[OF delivery_block_control(1)[OF completed(2)]]
  let ?first = "derive_run_status (s\<lparr>status := COMPLETED\<rparr>)"
  let ?final = "derive_run_status (s'\<lparr>status := COMPLETED\<rparr>)"
  have a: "run_status_assignments (orchestrate self rq auto)
           = replicate k ''in_progress'' @ [?first, ?final]"
    using completed(3) g(6) k by simp
  have b: "run_status (orchestrate self rq auto) = ?final"
    using completed(3) by simp
  have c: "?first = ?final \<or> (?first = ''completed'' \<and> ?final = ''completed_with_warnings'')"
    using label_after_delivery[OF completed(2)] by auto
  have d: "?final = ''completed'' \<or> ?final = ''completed_with_warnings''"
    by (rule label_completed)
  have "run_status_assignments (orchestrate self rq auto)
          = replicate k ''in_progress'' @ [?first, run_status (orchestrate self rq auto)]
        \<and> (?first = run_status (orchestrate self rq auto)
             \<or> (?first = ''completed''
                 \<and> run_status (orchestrate self rq auto) = ''completed_with_warnings''))
        \<and> (run_status (orchestrate self rq auto) = ''completed''
             \<or> run_status (orchestrate self rq auto) = ''completed_with_warnings'')"
    using a c d unfolding b by simp
  then show ?thesis by (intro exI[of _ k] exI[of _ ?first])
qed (use assms in simp_all)

lemma orchestrate_paused_label:
  assumes "status (orchestrate self rq auto) = PAUSED"
  shows "\<exists>k. run_status_assignments (orchestrate self rq auto)
               = replicate k ''in_progress'' @ [''paused'']"
proof (cases rule: orchestrate_cases[of self auto rq])
  case (paused p s)
  from reachable_in_progress[OF paused(1)]
  have "\<exists>k. run_status_assignments s = replicate k ''in_progress''" by simp
  then obtain k where k: "run_status_assignments s = replicate k ''in_progress''" by (rule exE)
  have "run_status_assignments (orchestrate self rq auto)
        = replicate k ''in_progress'' @ [''paused'']"
    using paused(3) k by simp
  then show ?thesis by (intro exI[of _ k])
qed (use assms in simp_all)

lemma orchestrate_failed_label:
  assumes "status (orchestrate self rq auto) = FAILED"
  shows "run_status (orchestrate self rq auto) = ''failed''
         \<and> (\<exists>before. run_status_assignments (orchestrate self rq auto) = before @ [''failed''])"
proof (cases rule: orchestrate_cases[of self auto rq])
  case (raised c p s exc s')
  have "run_status_assignments (orchestrate self rq auto)
        = run_status_assignments s' @ [''failed'']"
    using raised(5) by simp
  then have "\<exists>before. run_status_assignments (orchestrate self rq auto) = before @ [''failed'']"
    by (intro exI[of _ "run_status_assignments s'"])
  then show ?thesis using raised(5) by simp
next
  case (delivery_raised p s exc s')
  have "run_status_assignments (orchestrate self rq auto)
        = run_status_assignments s' @ [''failed'']"
    using delivery_raised(4) by simp
  then have "\<exists>before. run_status_assignments (orchestrate self rq auto) = before @ [''failed'']"
    by (intro exI[of _ "run_status_assignments s'"])
  then show ?thesis using delivery_raised(4) by simp
qed (use assms in simp_all)

text \<open>
  C9, amended. In the state that \<open>orchestrate\<close> returns: when the run completed, the
  label was assigned twice after the \<^verbatim>\<open>in_progress\<close> assignments, first when the
  loop left for delivery and before the delivery step ran, then again after that step;
  the second assignment, which is the returned label, repeats the first unless the first
  was \<^verbatim>\<open>completed\<close> and a warning recorded during the delivery step made it
  \<^verbatim>\<open>completed_with_warnings\<close>. When the run paused, \<^verbatim>\<open>paused\<close> was assigned once.
  When the run failed, \<^verbatim>\<open>failed\<close> is the last assignment and the returned label,
  whatever was assigned before.
\<close>

theorem run_status_assignment_history:
  "(status (orchestrate self rq auto) = COMPLETED \<longrightarrow>
      (\<exists>k first.
          run_status_assignments (orchestrate self rq auto)
            = replicate k ''in_progress'' @ [first, run_status (orchestrate self rq auto)]
          \<and> (first = run_status (orchestrate self rq auto)
               \<or> (first = ''completed''
                   \<and> run_status (orchestrate self rq auto) = ''completed_with_warnings''))
          \<and> (run_status (orchestrate self rq auto) = ''completed''
               \<or> run_status (orchestrate self rq auto) = ''completed_with_warnings'')))
   \<and> (status (orchestrate self rq auto) = PAUSED \<longrightarrow>
        run_status (orchestrate self rq auto) = ''paused''
        \<and> (\<exists>k. run_status_assignments (orchestrate self rq auto)
                  = replicate k ''in_progress'' @ [''paused'']))
   \<and> (status (orchestrate self rq auto) = FAILED \<longrightarrow>
        run_status (orchestrate self rq auto) = ''failed''
        \<and> (\<exists>before. run_status_assignments (orchestrate self rq auto) = before @ [''failed'']))"
proof (intro conjI impI)
  assume "status (orchestrate self rq auto) = COMPLETED"
  then show "\<exists>k first.
          run_status_assignments (orchestrate self rq auto)
            = replicate k ''in_progress'' @ [first, run_status (orchestrate self rq auto)]
          \<and> (first = run_status (orchestrate self rq auto)
               \<or> (first = ''completed''
                   \<and> run_status (orchestrate self rq auto) = ''completed_with_warnings''))
          \<and> (run_status (orchestrate self rq auto) = ''completed''
               \<or> run_status (orchestrate self rq auto) = ''completed_with_warnings'')"
    by (rule orchestrate_completed_label)
next
  assume p: "status (orchestrate self rq auto) = PAUSED"
  show "run_status (orchestrate self rq auto) = ''paused''"
    by (rule orchestrate_paused_fields(3)[OF p])
  show "\<exists>k. run_status_assignments (orchestrate self rq auto)
                  = replicate k ''in_progress'' @ [''paused'']"
    by (rule orchestrate_paused_label[OF p])
next
  assume f: "status (orchestrate self rq auto) = FAILED"
  from orchestrate_failed_label[OF f]
  show "run_status (orchestrate self rq auto) = ''failed''"
    "\<exists>before. run_status_assignments (orchestrate self rq auto) = before @ [''failed'']"
    by (rule conjunct1, rule conjunct2)
qed

section \<open>Runs in which no step raises\<close>

lemma run_completes:
  assumes ok: "\<And>cur prev s. reachable self auto rq cur prev s \<Longrightarrow> cur \<noteq> ''pause_for_approval'' \<Longrightarrow>
                 \<exists>t. execute_step self cur (if cur = ''delivery'' then delivery_entry self s
                                            else enter_step cur prev s) = Step_ok t"
    and np: "status (orchestrate self rq auto) \<noteq> PAUSED"
  shows "status (orchestrate self rq auto) = COMPLETED"
proof (cases rule: orchestrate_cases[of self auto rq])
  case (paused p s)
  then show ?thesis using np by simp
next
  case (raised c p s exc s')
  from ok[OF raised(1)] raised(2,3) show ?thesis by auto
next
  case (delivery_raised p s exc s')
  from ok[OF delivery_raised(1)] delivery_raised(2) show ?thesis
    by (auto simp: delivery_block_def)
next
  case (completed p s s')
  then show ?thesis by simp
qed

lemma auto_approve_never_pauses:
  "auto \<Longrightarrow> status (orchestrate self rq auto) \<noteq> PAUSED"
  by (simp add: orchestrate_paused_iff)

text \<open>A registry in which each of the six steps has a worker that always returns.\<close>

lemma returning_workers_never_raise:
  assumes w: "\<And>cur. cur \<in> {''intake'', ''planner'', ''execution'', ''qa'', ''judge'', ''delivery''} \<Longrightarrow>
                \<exists>w. worker_agents self cur = Some w \<and> (\<forall>x. \<exists>r. snd (w x) = Returns r)"
    and r: "reachable self auto rq cur prev s" and cur: "cur \<noteq> ''pause_for_approval''"
  shows "\<exists>t. execute_step self cur x = Step_ok t"
proof -
  from reachable_step_names[OF r] cur
  have "cur \<in> {''intake'', ''planner'', ''execution'', ''qa'', ''judge'', ''delivery''}" by simp
  from w[OF this] obtain w where w: "worker_agents self cur = Some w"
    and ret: "\<forall>x. \<exists>r. snd (w x) = Returns r" by (elim exE conjE)
  from ret obtain r where "snd (w (step_started cur x)) = Returns r" by blast
  from execute_step_returns[OF w this] show ?thesis by (intro exI)
qed

lemma demo_agent_workers:
  assumes "cur \<in> {''intake'', ''planner'', ''execution'', ''qa'', ''judge'', ''delivery''}"
  shows "\<exists>w. worker_agents demo_agent cur = Some w \<and> (\<forall>x. \<exists>r. snd (w x) = Returns r)"
  using assms by (auto simp: demo_agent_def constant_worker_def)

lemma demo_run_completes: "status (orchestrate demo_agent sample_request True) = COMPLETED"
proof (rule run_completes)
  fix cur prev s
  assume r: "reachable demo_agent True sample_request cur prev s"
    and c: "cur \<noteq> ''pause_for_approval''"
  show "\<exists>t. execute_step demo_agent cur
               (if cur = ''delivery'' then delivery_entry demo_agent s
                else enter_step cur prev s) = Step_ok t"
    using demo_agent_workers by (rule returning_workers_never_raise[OF _ r c])
next
  show "status (orchestrate demo_agent sample_request True) \<noteq> PAUSED"
    by (simp add: auto_approve_never_pauses)
qed

theorem run_status_assignment_history_witness:
  "status (orchestrate demo_agent sample_request True) = COMPLETED
   \<and> (\<exists>k first.
          run_status_assignments (orchestrate demo_agent sample_request True)
            = replicate k ''in_progress''
                @ [first, run_status (orchestrate demo_agent sample_request True)]
          \<and> (first = run_status (orchestrate demo_agent sample_request True)
               \<or> (first = ''completed''
                   \<and> run_status (orchestrate demo_agent sample_request True)
                       = ''completed_with_warnings''))
          \<and> (run_status (orchestrate demo_agent sample_request True) = ''completed''
               \<or> run_status (orchestrate demo_agent sample_request True)
                   = ''completed_with_warnings''))"
  using run_status_assignment_history[of demo_agent sample_request True] demo_run_completes
  by (intro conjI) simp_all

text \<open>
  C9 as stated fails on the run of \<open>demo_agent\<close>, in which every step succeeds: two of
  the executed assignments to \<^verbatim>\<open>run_status\<close> assign a terminal label.
\<close>

theorem run_status_assigned_twice_counterexample:
  "length (filter (\<lambda>v. v = ''completed'' \<or> v = ''completed_with_warnings''
                        \<or> v = ''failed'' \<or> v = ''paused'')
            (run_status_assignments (orchestrate demo_agent sample_request True))) = 2"
proof -
  from orchestrate_completed_label[OF demo_run_completes]
  obtain k first where
    a: "run_status_assignments (orchestrate demo_agent sample_request True)
          = replicate k ''in_progress''
              @ [first, run_status (orchestrate demo_agent sample_request True)]"
    and b: "first = run_status (orchestrate demo_agent sample_request True)
            \<or> (first = ''completed''
                \<and> run_status (orchestrate demo_agent sample_request True)
                    = ''completed_with_warnings'')"
    and c: "run_status (orchestrate demo_agent sample_request True) = ''completed''
            \<or> run_status (orchestrate demo_agent sample_request True) = ''completed_with_warnings''"
    by (elim exE conjE)
  from b c have "first = ''completed'' \<or> first = ''completed_with_warnings''" by auto
  with c show ?thesis unfolding a by auto
qed
section \<open>Runs with retries\<close>


lemma py_lower_accept: "py_lower ''accept'' = ''accept''"
  by (simp add: py_lower_def lower_char_def)

lemma retry_gate_fires_simps:
  "cur \<noteq> ''execution'' \<Longrightarrow> \<not> retry_gate_fires cur prev s"
  "\<not> retry_gate_fires cur (Some ''planner'') s"
  "retry_gate_fires ''execution'' (Some ''qa'') s
     \<longleftrightarrow> qa_failed s \<and> retry_count s < max_retries s"
  "retry_gate_fires ''execution'' (Some ''judge'') s
     \<longleftrightarrow> py_lower (py_str (dict_get (judge_result s) ''action'' (PStr []))) = ''retry''
         \<and> retry_count s < max_retries s"
  by (simp_all add: retry_gate_fires_def retry_condition_def)

lemma qa_failed_status:
  "dict_get (qa_result s) ''status'' PNone = PQAStatus q \<Longrightarrow> qa_failed s \<longleftrightarrow> q = QA_FAIL"
  by (simp add: qa_failed_def)

lemma router_simps:
  "determine_next_step ''intake'' s = ''planner''"
  "determine_next_step ''execution'' s = ''qa''"
  "determine_next_step ''planner'' s = ''pause_for_approval'' \<or> determine_next_step ''planner'' s = ''execution''"
  "\<not> py_truthy (requires_approval s) \<Longrightarrow> determine_next_step ''planner'' s = ''execution''"
  "dict_get (qa_result s) ''status'' PNone = PQAStatus q \<Longrightarrow>
     determine_next_step ''qa'' s
       = (if q = QA_FAIL \<and> retry_count s < max_retries s then ''execution'' else ''judge'')"
  "determine_next_step ''judge'' s
     = (if py_lower (py_str (dict_get (judge_result s) ''action'' (PStr ''accept''))) = ''retry''
           \<and> retry_count s < max_retries s then ''execution'' else ''delivery'')"
  "\<not> retry_count s < max_retries s \<Longrightarrow> determine_next_step ''qa'' s = ''judge''"
  "\<not> retry_count s < max_retries s \<Longrightarrow> determine_next_step ''judge'' s = ''delivery''"
proof -
  show "dict_get (qa_result s) ''status'' PNone = PQAStatus q \<Longrightarrow>
     determine_next_step ''qa'' s
       = (if q = QA_FAIL \<and> retry_count s < max_retries s then ''execution'' else ''judge'')"
    by (cases q) (simp_all add: determine_next_step_def)
qed (simp_all add: determine_next_step_def Let_def)

lemma loop_steps:
  "''intake'' \<in> {''intake'', ''planner'', ''execution'', ''qa'', ''judge''}"
  "''planner'' \<in> {''intake'', ''planner'', ''execution'', ''qa'', ''judge''}"
  "''execution'' \<in> {''intake'', ''planner'', ''execution'', ''qa'', ''judge''}"
  "''qa'' \<in> {''intake'', ''planner'', ''execution'', ''qa'', ''judge''}"
  "''judge'' \<in> {''intake'', ''planner'', ''execution'', ''qa'', ''judge''}"
  by simp_all

text \<open>One iteration of a run in which no step raises.\<close>

lemma chain_step:
  assumes ok: "\<And>cur prev s. reachable self auto rq cur prev s \<Longrightarrow> cur \<noteq> ''pause_for_approval'' \<Longrightarrow>
                 \<exists>t. execute_step self cur (if cur = ''delivery'' then delivery_entry self s
                                            else enter_step cur prev s) = Step_ok t"
    and r: "reachable self auto rq cur prev s"
    and cur: "cur \<in> {''intake'', ''planner'', ''execution'', ''qa'', ''judge''}"
  obtains t where "execute_step self cur (enter_step cur prev s) = Step_ok t"
    and "reachable self auto rq (determine_next_step cur (sla_check self t)) (Some cur)
           (sla_check self t)"
proof -
  from cur have c: "cur \<noteq> ''pause_for_approval''" "cur \<noteq> ''delivery''"
    "cur \<notin> {''end'', ''delivery'', ''pause_for_approval''}"
    by auto
  from ok[OF r c(1)] c(2) have "\<exists>t. execute_step self cur (enter_step cur prev s) = Step_ok t"
    by simp
  then obtain t where e: "execute_step self cur (enter_step cur prev s) = Step_ok t"
    by (rule exE)
  from iteration_ok[OF r c(3) e] e show ?thesis by (rule that[rotated])
qed

lemma chain_delivery:
  assumes ok: "\<And>cur prev s. reachable self auto rq cur prev s \<Longrightarrow> cur \<noteq> ''pause_for_approval'' \<Longrightarrow>
                 \<exists>t. execute_step self cur (if cur = ''delivery'' then delivery_entry self s
                                            else enter_step cur prev s) = Step_ok t"
    and r: "reachable self auto rq ''delivery'' prev s"
  shows "status (orchestrate self rq auto) = COMPLETED"
    "retry_count (orchestrate self rq auto) = retry_count s"
    "route_history (orchestrate self rq auto) = route_history s @ [''delivery'']"
proof -
  from ok[OF r] have "\<exists>t. delivery_block self s = Step_ok t"
    by (simp add: delivery_block_def)
  then obtain t where d: "delivery_block self s = Step_ok t" by (rule exE)
  note g = control_fieldsD[OF delivery_block_control(1)[OF d]]
  from orchestrate_completed[OF r d] g
  show "status (orchestrate self rq auto) = COMPLETED"
    "retry_count (orchestrate self rq auto) = retry_count s"
    "route_history (orchestrate self rq auto) = route_history s @ [''delivery'']"
    by simp_all
qed

text \<open>The first two iterations: after them the loop stands at the first execution.\<close>

lemma chain_to_first_execution:
  assumes ok: "\<And>cur prev s. reachable self auto rq cur prev s \<Longrightarrow> cur \<noteq> ''pause_for_approval'' \<Longrightarrow>
                 \<exists>t. execute_step self cur (if cur = ''delivery'' then delivery_entry self s
                                            else enter_step cur prev s) = Step_ok t"
    and np: "status (orchestrate self rq auto) \<noteq> PAUSED"
  obtains s where "reachable self auto rq ''execution'' (Some ''planner'') s"
    and "retry_count s = 0" and "max_retries s = rq_max_retries rq"
    and "route_history s = [''intake'', ''planner'']"
proof -
  have r0: "reachable self auto rq ''intake'' None (start_state self rq)"
    by (rule reachable.start)
  obtain t1
    where e1: "execute_step self ''intake'' (enter_step ''intake'' None (start_state self rq))
               = Step_ok t1"
      and n1: "reachable self auto rq (determine_next_step ''intake'' (sla_check self t1))
                 (Some ''intake'') (sla_check self t1)"
    by (rule chain_step[OF _ r0 loop_steps(1)], rule ok, assumption, assumption) (rule that)
  define s1 where "s1 = sla_check self t1"
  note f1 = iteration_fields[OF e1, folded s1_def]
  have r1: "reachable self auto rq ''planner'' (Some ''intake'') s1"
    using n1 by (simp add: router_simps s1_def)
  have h1: "retry_count s1 = 0" "max_retries s1 = rq_max_retries rq"
    "route_history s1 = [''intake'']"
    using f1(1,2,3) by (simp_all add: retry_gate_fires_simps)
  obtain t2
    where e2: "execute_step self ''planner'' (enter_step ''planner'' (Some ''intake'') s1)
               = Step_ok t2"
      and n2: "reachable self auto rq (determine_next_step ''planner'' (sla_check self t2))
                 (Some ''planner'') (sla_check self t2)"
    by (rule chain_step[OF _ r1 loop_steps(2)], rule ok, assumption, assumption) (rule that)
  define s2 where "s2 = sla_check self t2"
  note f2 = iteration_fields[OF e2, folded s2_def]
  have h2: "retry_count s2 = 0" "max_retries s2 = rq_max_retries rq"
    "route_history s2 = [''intake'', ''planner'']"
    using f2(1,2,3) h1 by (simp_all add: retry_gate_fires_simps)
  from router_simps(3)[of s2] show ?thesis
  proof
    assume "determine_next_step ''planner'' s2 = ''execution''"
    then have "reachable self auto rq ''execution'' (Some ''planner'') s2"
      using n2 by (simp add: s2_def)
    then show ?thesis using h2 by (rule that)
  next
    assume "determine_next_step ''planner'' s2 = ''pause_for_approval''"
    then have g: "reachable self auto rq ''pause_for_approval'' (Some ''planner'') s2"
      using n2 by (simp add: s2_def)
    have auto
    proof (rule ccontr)
      assume "\<not> auto"
      from orchestrate_paused[OF g this] np show False by simp
    qed
    from iteration_auto_approved[OF g this]
    have ra: "reachable self auto rq ''execution'' (Some ''planner'') (approval_auto_approved s2)" .
    show ?thesis by (rule that[OF ra]) (simp_all add: h2)
  qed
qed

text \<open>
  C7. In a run with \<^verbatim>\<open>max_retries = 1\<close> in which no step raises, which does not
  stop at the approval gate, and whose QA step reports \<^verbatim>\<open>QAStatus.FAIL\<close> when it
  runs with \<^verbatim>\<open>retry_count = 0\<close> and \<^verbatim>\<open>QAStatus.PASS\<close> afterwards, the returned
  state has \<^verbatim>\<open>status = completed\<close> and \<^verbatim>\<open>retry_count = 1\<close>, and its
  \<^verbatim>\<open>route_history\<close> holds \<^verbatim>\<open>execution\<close> twice and \<^verbatim>\<open>qa\<close> twice.
\<close>

theorem forced_qa_failure_retries_once:
  assumes budget: "rq_max_retries rq = 1"
    and ok: "\<And>cur prev s. reachable self auto rq cur prev s \<Longrightarrow> cur \<noteq> ''pause_for_approval'' \<Longrightarrow>
                 \<exists>t. execute_step self cur (if cur = ''delivery'' then delivery_entry self s
                                            else enter_step cur prev s) = Step_ok t"
    and qa: "\<And>prev s t. reachable self auto rq ''qa'' prev s \<Longrightarrow>
                 execute_step self ''qa'' (enter_step ''qa'' prev s) = Step_ok t \<Longrightarrow>
                 dict_get (qa_result t) ''status'' PNone
                   = PQAStatus (if retry_count s = 0 then QA_FAIL else QA_PASS)"
    and np: "status (orchestrate self rq auto) \<noteq> PAUSED"
  shows "status (orchestrate self rq auto) = COMPLETED
         \<and> retry_count (orchestrate self rq auto) = 1
         \<and> count_list (route_history (orchestrate self rq auto)) ''execution'' = 2
         \<and> count_list (route_history (orchestrate self rq auto)) ''qa'' = 2
         \<and> route_history (orchestrate self rq auto)
             = [''intake'', ''planner'', ''execution'', ''qa'', ''execution'', ''qa'', ''judge'',
                ''delivery'']"
proof -
  from chain_to_first_execution[OF ok np] obtain s2
    where r2: "reachable self auto rq ''execution'' (Some ''planner'') s2"
      and h2: "retry_count s2 = 0" "max_retries s2 = rq_max_retries rq"
        "route_history s2 = [''intake'', ''planner'']"
    by blast
  \<comment> \<open>the first execution\<close>
  obtain t3
    where e3: "execute_step self ''execution'' (enter_step ''execution'' (Some ''planner'') s2)
               = Step_ok t3"
      and n3: "reachable self auto rq (determine_next_step ''execution'' (sla_check self t3))
                 (Some ''execution'') (sla_check self t3)"
    by (rule chain_step[OF _ r2 loop_steps(3)], rule ok, assumption, assumption) (rule that)
  define s3 where "s3 = sla_check self t3"
  note f3 = iteration_fields[OF e3, folded s3_def]
  have r3: "reachable self auto rq ''qa'' (Some ''execution'') s3"
    using n3 by (simp add: router_simps s3_def)
  have h3: "retry_count s3 = 0" "max_retries s3 = 1"
    "route_history s3 = [''intake'', ''planner'', ''execution'']"
    using f3(1,2,3) h2 budget by (simp_all add: retry_gate_fires_simps)
  \<comment> \<open>the first QA: it fails, and the router sends the run back\<close>
  obtain t4
    where e4: "execute_step self ''qa'' (enter_step ''qa'' (Some ''execution'') s3) = Step_ok t4"
      and n4: "reachable self auto rq (determine_next_step ''qa'' (sla_check self t4))
                 (Some ''qa'') (sla_check self t4)"
    by (rule chain_step[OF _ r3 loop_steps(4)], rule ok, assumption, assumption) (rule that)
  define s4 where "s4 = sla_check self t4"
  note f4 = iteration_fields[OF e4, folded s4_def]
  have q4: "dict_get (qa_result s4) ''status'' PNone = PQAStatus QA_FAIL"
    using qa[OF r3 e4] h3(1) f4(11) by simp
  have h4: "retry_count s4 = 0" "max_retries s4 = 1"
    "route_history s4 = [''intake'', ''planner'', ''execution'', ''qa'']"
    using f4(1,2,3) h3 by (simp_all add: retry_gate_fires_simps)
  have r4: "reachable self auto rq ''execution'' (Some ''qa'') s4"
    using n4 router_simps(5)[OF q4] h4 by (simp add: s4_def)
  have fire4: "retry_gate_fires ''execution'' (Some ''qa'') s4"
    using qa_failed_status[OF q4] h4 by (simp add: retry_gate_fires_simps)
  \<comment> \<open>the retry\<close>
  obtain t5
    where e5: "execute_step self ''execution'' (enter_step ''execution'' (Some ''qa'') s4)
               = Step_ok t5"
      and n5: "reachable self auto rq (determine_next_step ''execution'' (sla_check self t5))
                 (Some ''execution'') (sla_check self t5)"
    by (rule chain_step[OF _ r4 loop_steps(3)], rule ok, assumption, assumption) (rule that)
  define s5 where "s5 = sla_check self t5"
  note f5 = iteration_fields[OF e5, folded s5_def]
  have r5: "reachable self auto rq ''qa'' (Some ''execution'') s5"
    using n5 by (simp add: router_simps s5_def)
  have h5: "retry_count s5 = 1" "max_retries s5 = 1"
    "route_history s5 = [''intake'', ''planner'', ''execution'', ''qa'', ''execution'']"
    using f5(1,2,3) h4 fire4 by simp_all
  \<comment> \<open>the second QA: the budget is used up, the run goes on to the judge\<close>
  obtain t6
    where e6: "execute_step self ''qa'' (enter_step ''qa'' (Some ''execution'') s5) = Step_ok t6"
      and n6: "reachable self auto rq (determine_next_step ''qa'' (sla_check self t6))
                 (Some ''qa'') (sla_check self t6)"
    by (rule chain_step[OF _ r5 loop_steps(4)], rule ok, assumption, assumption) (rule that)
  define s6 where "s6 = sla_check self t6"
  note f6 = iteration_fields[OF e6, folded s6_def]
  have h6: "retry_count s6 = 1" "max_retries s6 = 1"
    "route_history s6 = [''intake'', ''planner'', ''execution'', ''qa'', ''execution'', ''qa'']"
    using f6(1,2,3) h5 by (simp_all add: retry_gate_fires_simps)
  have r6: "reachable self auto rq ''judge'' (Some ''qa'') s6"
    using n6 router_simps(7)[of s6] h6 by (simp add: s6_def)
  \<comment> \<open>the judge\<close>
  obtain t7
    where e7: "execute_step self ''judge'' (enter_step ''judge'' (Some ''qa'') s6) = Step_ok t7"
      and n7: "reachable self auto rq (determine_next_step ''judge'' (sla_check self t7))
                 (Some ''judge'') (sla_check self t7)"
    by (rule chain_step[OF _ r6 loop_steps(5)], rule ok, assumption, assumption) (rule that)
  define s7 where "s7 = sla_check self t7"
  note f7 = iteration_fields[OF e7, folded s7_def]
  have h7: "retry_count s7 = 1" "max_retries s7 = 1"
    "route_history s7 = [''intake'', ''planner'', ''execution'', ''qa'', ''execution'', ''qa'',
                         ''judge'']"
    using f7(1,2,3) h6 by (simp_all add: retry_gate_fires_simps)
  have r7: "reachable self auto rq ''delivery'' (Some ''judge'') s7"
    using n7 router_simps(8)[of s7] h7 by (simp add: s7_def)
  \<comment> \<open>delivery\<close>
  from chain_delivery[OF ok r7] h7
  have "status (orchestrate self rq auto) = COMPLETED"
    "retry_count (orchestrate self rq auto) = 1"
    "route_history (orchestrate self rq auto)
       = [''intake'', ''planner'', ''execution'', ''qa'', ''execution'', ''qa'', ''judge'',
          ''delivery'']"
    by simp_all
  then show ?thesis by simp
qed

text \<open>
  The registry of \<open>demo_agent\<close> with the QA worker in its forced-failure mode, on a
  document that passes every check: \<^verbatim>\<open>QAAgent.execute\<close> adds the failed check
  \<^verbatim>\<open>forced_failure\<close>, and so reports FAIL, exactly when
  \<^verbatim>\<open>state.force_qa_fail_once and state.retry_count == 0\<close>.
\<close>

definition forced_failure_qa :: worker where
  "forced_failure_qa =
     (\<lambda>state. ([], Returns [(''status'',
                    PQAStatus (if force_qa_fail_once state \<and> retry_count state = 0
                               then QA_FAIL else QA_PASS))]))"

definition forced_qa_agent :: MasterAgent where
  "forced_qa_agent =
     demo_agent\<lparr>worker_agents := (worker_agents demo_agent)(''qa'' \<mapsto> forced_failure_qa)\<rparr>"

definition forced_request :: request where
  "forced_request = sample_request\<lparr>rq_force_qa_fail_once := True\<rparr>"

lemma forced_qa_agent_workers:
  assumes "cur \<in> {''intake'', ''planner'', ''execution'', ''qa'', ''judge'', ''delivery''}"
  shows "\<exists>w. worker_agents forced_qa_agent cur = Some w \<and> (\<forall>x. \<exists>r. snd (w x) = Returns r)"
  using assms
  by (auto simp: forced_qa_agent_def demo_agent_def constant_worker_def forced_failure_qa_def)

lemma forced_qa_agent_verdict:
  assumes r: "reachable forced_qa_agent auto forced_request ''qa'' prev s"
    and e: "execute_step forced_qa_agent ''qa'' (enter_step ''qa'' prev s) = Step_ok t"
  shows "dict_get (qa_result t) ''status'' PNone
         = PQAStatus (if retry_count s = 0 then QA_FAIL else QA_PASS)"
proof -
  have w: "worker_agents forced_qa_agent ''qa'' = Some forced_failure_qa"
    by (simp add: forced_qa_agent_def)
  have force: "force_qa_fail_once s"
    using reachable_force_flag[OF r] by (simp add: forced_request_def sample_request_def)
  have "execute_step forced_qa_agent ''qa'' (enter_step ''qa'' prev s)
        = Step_ok (step_completed ''qa''
            [(''status'', PQAStatus (if retry_count s = 0 then QA_FAIL else QA_PASS))]
            (step_started ''qa'' (enter_step ''qa'' prev s)))"
    using force
    by (simp add: execute_step_def w forced_failure_qa_def retry_gate_fires_simps)
  with e have "t = step_completed ''qa''
            [(''status'', PQAStatus (if retry_count s = 0 then QA_FAIL else QA_PASS))]
            (step_started ''qa'' (enter_step ''qa'' prev s))"
    by simp
  then show ?thesis by (simp add: dict_get_def)
qed

theorem forced_qa_failure_retries_once_witness:
  "rq_max_retries forced_request = 1
   \<and> status (orchestrate forced_qa_agent forced_request True) = COMPLETED
   \<and> retry_count (orchestrate forced_qa_agent forced_request True) = 1
   \<and> count_list (route_history (orchestrate forced_qa_agent forced_request True)) ''execution'' = 2
   \<and> count_list (route_history (orchestrate forced_qa_agent forced_request True)) ''qa'' = 2"
proof -
  have budget: "rq_max_retries forced_request = 1"
    by (simp add: forced_request_def sample_request_def)
  have "status (orchestrate forced_qa_agent forced_request True) = COMPLETED
         \<and> retry_count (orchestrate forced_qa_agent forced_request True) = 1
         \<and> count_list (route_history (orchestrate forced_qa_agent forced_request True)) ''execution'' = 2
         \<and> count_list (route_history (orchestrate forced_qa_agent forced_request True)) ''qa'' = 2
         \<and> route_history (orchestrate forced_qa_agent forced_request True)
             = [''intake'', ''planner'', ''execution'', ''qa'', ''execution'', ''qa'', ''judge'',
                ''delivery'']"
  proof (rule forced_qa_failure_retries_once[OF budget])
    fix cur prev s
    assume r: "reachable forced_qa_agent True forced_request cur prev s"
      and c: "cur \<noteq> ''pause_for_approval''"
    show "\<exists>t. execute_step forced_qa_agent cur
                 (if cur = ''delivery'' then delivery_entry forced_qa_agent s
                  else enter_step cur prev s) = Step_ok t"
      using forced_qa_agent_workers by (rule returning_workers_never_raise[OF _ r c])
  next
    fix prev s t
    assume "reachable forced_qa_agent True forced_request ''qa'' prev s"
      and "execute_step forced_qa_agent ''qa'' (enter_step ''qa'' prev s) = Step_ok t"
    then show "dict_get (qa_result t) ''status'' PNone
               = PQAStatus (if retry_count s = 0 then QA_FAIL else QA_PASS)"
      by (rule forced_qa_agent_verdict)
  next
    show "status (orchestrate forced_qa_agent forced_request True) \<noteq> PAUSED"
      by (simp add: auto_approve_never_pauses)
  qed
  with budget show ?thesis by simp
qed

section \<open>The canonical path of the specification\<close>












end
